theory Spec2Isabelle
  imports Complex_Main "HOL-Library.Word" "HOL-Library.AList"
begin

section \<open>Conventions\<close>

text \<open>
  The renderer computes with IEEE single and double precision numbers. Unless stated
  otherwise they are idealised here as real numbers: every arithmetic operation is exact,
  and the exceptional values (infinities, NaN) do not occur. The exception is the
  allocation of the depth ranges (render.cpp, lines 3319 to 3332), whose results the
  specification compares with exact fractions: there every single-precision operation is
  followed by its rounding. Camera space has the negative z axis pointing into the screen,
  so the z coordinate of anything in front of the observer is negative and a larger z is
  closer to the observer.
\<close>

section \<open>Depth-buffer partitioning in \<open>Renderer::draw\<close>\<close>

subsection \<open>Data\<close>

text \<open>The fields of a render-list entry that the partitioning block reads.\<close>

record RenderListEntry =
  rle_discSizeInPixels :: real
  rle_nearZ :: real
  rle_farZ :: real

record OrbitPathListEntry =
  centerZ :: real
  radius :: real

record DepthBufferPartition =
  index :: nat
  nearZ :: real
  farZ :: real

text \<open>
  The local variables of the partitioning loop: the vector \<open>depthPartitions\<close>, the counter
  \<open>nIntervals\<close> and the frontier \<open>prevNear\<close>.
\<close>

record PartitionState =
  depthPartitions :: "DepthBufferPartition list"
  nIntervals :: nat
  prevNear :: real

definition MinNearPlaneDistance :: real where
  "MinNearPlaneDistance = 1 / 10000"

subsection \<open>The back-to-front scan (render.cpp, lines 3187 to 3239)\<close>

definition initialPrevNear :: "RenderListEntry list \<Rightarrow> real" where
  "initialPrevNear renderList =
     (if renderList \<noteq> [] then rle_farZ (last renderList) * (101 / 100)
      else - 1000000000000)"

definition initialState :: "RenderListEntry list \<Rightarrow> PartitionState" where
  "initialState renderList =
     \<lparr>depthPartitions = [], nIntervals = 0, prevNear = initialPrevNear renderList\<rparr>"

definition push_back :: "DepthBufferPartition \<Rightarrow> PartitionState \<Rightarrow> PartitionState" where
  \<comment> \<open>\<open>depthPartitions.push_back(partition); nIntervals++;\<close>\<close>
  "push_back p s =
     s\<lparr>depthPartitions := depthPartitions s @ [p], nIntervals := nIntervals s + 1\<rparr>"

definition newInterval :: "RenderListEntry \<Rightarrow> PartitionState \<Rightarrow> PartitionState" where
  "newInterval e s =
     (let filler = \<lparr>index = nIntervals s, nearZ = rle_farZ e, farZ = prevNear s\<rparr>;
          s1 = (if nearZ filler \<noteq> farZ filler then push_back filler s else s);
          partition = \<lparr>index = nIntervals s1, nearZ = rle_nearZ e, farZ = rle_farZ e\<rparr>
      in (push_back partition s1)\<lparr>prevNear := nearZ partition\<rparr>)"

definition expandInterval :: "RenderListEntry \<Rightarrow> PartitionState \<Rightarrow> PartitionState" where
  "expandInterval e s =
     (let k = nIntervals s - 1;
          partition = depthPartitions s ! k;
          partition' = partition\<lparr>nearZ := max (nearZ partition) (rle_nearZ e),
                                 farZ := min (farZ partition) (rle_farZ e)\<rparr>
      in s\<lparr>depthPartitions := (depthPartitions s)[k := partition'],
            prevNear := nearZ partition'\<rparr>)"

definition scanStep :: "RenderListEntry \<Rightarrow> PartitionState \<Rightarrow> PartitionState" where
  "scanStep e s =
     (if rle_discSizeInPixels e > 1 then
        (if nIntervals s = 0
            \<or> rle_farZ e \<ge> nearZ (depthPartitions s ! (nIntervals s - 1))
         then newInterval e s
         else expandInterval e s)
      else s)"

definition scan :: "RenderListEntry list \<Rightarrow> PartitionState" where
  \<comment> \<open>\<open>for (i = nEntries - 1; i >= 0; i--)\<close>: the list is walked from its last entry.\<close>
  "scan renderList = fold scanStep (rev renderList) (initialState renderList)"

subsection \<open>The frontmost interval (lines 3241 to 3310)\<close>

definition orbitNearest :: "OrbitPathListEntry list \<Rightarrow> real \<Rightarrow> real" where
  "orbitNearest orbitPathList z0 =
     fold (\<lambda>orb zNearest.
             let minNearDistance = min (- MinNearPlaneDistance) (centerZ orb + radius orb)
             in if minNearDistance > zNearest then minNearDistance else zNearest)
          orbitPathList z0"

definition annotationNearest :: "real list \<Rightarrow> real \<Rightarrow> real" where
  \<comment> \<open>The list holds \<open>position.z()\<close> of each depth-sorted annotation.\<close>
  "annotationNearest depthSortedAnnotations zNearest =
     (case depthSortedAnnotations of
        [] \<Rightarrow> zNearest
      | z # _ \<Rightarrow> if - z > zNearest then - z * (999 / 1000) else zNearest)"

definition zNearestOf :: "OrbitPathListEntry list \<Rightarrow> real list \<Rightarrow> real \<Rightarrow> real" where
  "zNearestOf orbitPathList depthSortedAnnotations prevNear0 =
     (let zNearest = annotationNearest depthSortedAnnotations
                       (orbitNearest orbitPathList prevNear0)
      in if zNearest = prevNear0 then 0 else zNearest)"

definition closestOf :: "RenderListEntry list \<Rightarrow> real \<Rightarrow> real" where
  "closestOf renderList zNearest =
     (case renderList of
        [] \<Rightarrow> zNearest
      | e0 # _ \<Rightarrow>
          let closest = max zNearest (rle_nearZ e0)
          in if closest = 0 then rle_nearZ e0 * (1 / 100) else closest)"

definition frontInterval ::
  "RenderListEntry list \<Rightarrow> OrbitPathListEntry list \<Rightarrow> real list \<Rightarrow>
   PartitionState \<Rightarrow> PartitionState" where
  "frontInterval renderList orbitPathList depthSortedAnnotations s =
     (let zNearest = zNearestOf orbitPathList depthSortedAnnotations (prevNear s);
          closest = closestOf renderList zNearest;
          partition = \<lparr>index = nIntervals s, nearZ = closest, farZ = prevNear s\<rparr>
      in push_back partition s)"

definition orbitFarthest :: "OrbitPathListEntry list \<Rightarrow> PartitionState \<Rightarrow> PartitionState" where
  "orbitFarthest orbitPathList s =
     (if orbitPathList \<noteq> [] then
        (let p0 = depthPartitions s ! 0;
             orb = last orbitPathList
         in s\<lparr>depthPartitions :=
                 (depthPartitions s)[0 := p0\<lparr>farZ := min (farZ p0) (centerZ orb - radius orb)\<rparr>]\<rparr>)
      else s)"

definition partitionDepth ::
  "RenderListEntry list \<Rightarrow> OrbitPathListEntry list \<Rightarrow> real list \<Rightarrow> PartitionState" where
  "partitionDepth renderList orbitPathList depthSortedAnnotations =
     orbitFarthest orbitPathList
       (frontInterval renderList orbitPathList depthSortedAnnotations (scan renderList))"

subsection \<open>Single-precision arithmetic\<close>

text \<open>
  A single-precision number has 24 significant bits. \<open>roundHalfEven y\<close> is the integer
  nearest to \<open>y\<close>, the even one of the two when \<open>y\<close> lies half-way between two integers;
  \<open>roundSingle x\<close> is the number with 24 significant bits nearest to \<open>x\<close>, with the same
  rule for ties, which is the rounding of every single-precision operation in the default
  rounding mode. The exponent is not limited. In the computation of the depth ranges the
  values other than 0 have a magnitude between \<open>2\<^sup>-\<^sup>3\<^sup>1\<close> and \<open>2\<^sup>3\<^sup>1\<close>, where single precision
  has neither overflow nor subnormal numbers. Every operation is rounded on its own, as a
  compiler does that evaluates \<open>float\<close> expressions in single precision and does not fuse
  a multiplication with the subtraction that follows it.
\<close>

definition roundHalfEven :: "real \<Rightarrow> int" where
  "roundHalfEven y =
     (let f = \<lfloor>y\<rfloor>; d = y - of_int f
      in if d < 1 / 2 then f
         else if d > 1 / 2 then f + 1
         else if even f then f else f + 1)"

definition roundSingle :: "real \<Rightarrow> real" where
  "roundSingle x =
     (if x = 0 then 0
      else (let ulp = 2 powr (of_int \<lfloor>log 2 \<bar>x\<bar>\<rfloor> - 23)
            in of_int (roundHalfEven (x / ulp)) * ulp))"

definition toFloat :: "nat \<Rightarrow> real" where
  \<comment> \<open>The conversion \<open>(float) k\<close> of a non-negative \<open>int\<close>.\<close>
  "toFloat k = roundSingle (real k)"

subsection \<open>Depth ranges of the intervals (lines 3319 to 3332)\<close>

definition intervalSize :: "nat \<Rightarrow> real" where
  \<comment> \<open>\<open>float intervalSize = 1.0f / (float) max(1, nIntervals);\<close>\<close>
  "intervalSize n = roundSingle (1 / toFloat (max 1 n))"

definition depthBound :: "nat \<Rightarrow> nat \<Rightarrow> real" where
  \<comment> \<open>\<open>1.0f - (float) j * intervalSize\<close>, for \<open>j = interval + 1\<close> and \<open>j = interval\<close>.\<close>
  "depthBound n j = roundSingle (1 - roundSingle (toFloat j * intervalSize n))"

definition depthRange :: "nat \<Rightarrow> nat \<Rightarrow> real \<times> real" where
  \<comment> \<open>The two arguments of \<open>glDepthRange\<close> for the interval \<open>interval\<close> of \<open>n\<close>.\<close>
  "depthRange n interval = (depthBound n (interval + 1), depthBound n interval)"

definition depthRanges ::
  "RenderListEntry list \<Rightarrow> OrbitPathListEntry list \<Rightarrow> real list \<Rightarrow> (real \<times> real) list" where
  "depthRanges renderList orbitPathList depthSortedAnnotations =
     (let n = nIntervals (partitionDepth renderList orbitPathList depthSortedAnnotations)
      in map (depthRange n) [0..<n])"



subsection \<open>Properties of a partition sequence\<close>

text \<open>
  No gap between consecutive intervals, in construction order: the far bound of an interval
  is at or beyond the near bound of the interval built before it.
\<close>

definition gapFree :: "DepthBufferPartition list \<Rightarrow> bool" where
  "gapFree ps = (\<forall>i. 0 < i \<and> i < length ps \<longrightarrow> farZ (ps ! i) \<le> nearZ (ps ! (i - 1)))"

text \<open>What the scan maintains between two render-list entries.\<close>

definition scanInv :: "PartitionState \<Rightarrow> bool" where
  "scanInv s \<longleftrightarrow>
     nIntervals s = length (depthPartitions s) \<and>
     gapFree (depthPartitions s) \<and>
     (depthPartitions s \<noteq> [] \<longrightarrow> prevNear s = nearZ (last (depthPartitions s))) \<and>
     (\<forall>k < length (depthPartitions s). index (depthPartitions s ! k) = k)"

text \<open>
  Before the partitioning \<open>draw\<close> sorts the render list with the comparison operator of
  \<open>RenderListEntry\<close> (lines 897 to 901, line 3120), that is by \<open>centerZ - radius\<close>; the
  fields \<open>nearZ\<close> and \<open>farZ\<close> that the scan reads are set by the culling stage (lines 3041
  to 3095) and need not follow that order. No property below assumes an order of the
  render list.
\<close>



subsection \<open>Example scenes\<close>

text \<open>
  Three bodies, the two nearest overlapping in depth; a single body; and two bodies that
  touch in depth, the far bound of the nearer one being the near bound of the other.
\<close>

definition exampleRenderList :: "RenderListEntry list" where
  "exampleRenderList =
     [\<lparr>rle_discSizeInPixels = 2, rle_nearZ = - 1, rle_farZ = - 3\<rparr>,
      \<lparr>rle_discSizeInPixels = 2, rle_nearZ = - 2, rle_farZ = - 4\<rparr>,
      \<lparr>rle_discSizeInPixels = 2, rle_nearZ = - 8, rle_farZ = - 10\<rparr>]"


definition twoTouchingBodies :: "RenderListEntry list" where
  "twoTouchingBodies =
     [\<lparr>rle_discSizeInPixels = 2, rle_nearZ = - 1, rle_farZ = - 2\<rparr>,
      \<lparr>rle_discSizeInPixels = 2, rle_nearZ = - 2, rle_farZ = - 4\<rparr>]"

section \<open>Subtree culling in \<open>Renderer::buildRenderLists\<close> (lines 5793 to 5875)\<close>

datatype FrustumAspect = Outside | Inside | Intersect

definition PLANETSHINE_DISTANCE_LIMIT_FACTOR :: real where
  "PLANETSHINE_DISTANCE_LIMIT_FACTOR = 100"

definition PLANETSHINE_PIXEL_SIZE_LIMIT :: real where
  "PLANETSHINE_PIXEL_SIZE_LIMIT = 1 / 10"

text \<open>
  The renderer fields that the subtree test reads. \<open>sinViewAngle\<close> and
  \<open>invCosViewAngle\<close> are computed from \<open>cosViewConeAngle\<close> at the top of
  \<open>buildRenderLists\<close>.
\<close>

record ViewSettings =
  faintestPlanetMag :: real
  pixelSize :: real
  cosViewConeAngle :: real

definition invCosViewAngle :: "ViewSettings \<Rightarrow> real" where
  "invCosViewAngle r = 1 / cosViewConeAngle r"

definition sinViewAngle :: "ViewSettings \<Rightarrow> real" where
  "sinViewAngle r = sqrt (1 - (cosViewConeAngle r)\<^sup>2)"

text \<open>
  What the test reads of the body and of its child frame tree. The frustum test
  (\<open>Frustum::testSphere\<close>) and the photometric functions (\<open>luminosityAtOpposition\<close>,
  \<open>astro::lumToAppMag\<close>) are defined outside render.cpp; their results enter as fields:
  \<open>frustumTest\<close> is the result of testing the bounding sphere of the subtree, and
  \<open>subtreeAppMag d\<close> is the apparent magnitude, at distance \<open>d\<close>, of the largest child lit
  at opposition by all light sources.
\<close>

record SubtreeView =
  dist_v :: real
  dist_vn :: real
  perpDistSq :: real
  boundingSphereRadius :: real
  maxChildRadius :: real
  containsSecondaryIlluminators :: bool
  frustumTest :: FrustumAspect
  subtreeAppMag :: "real \<Rightarrow> real"

definition minPossibleDistance :: "SubtreeView \<Rightarrow> real" where
  "minPossibleDistance t = dist_v t - boundingSphereRadius t"

definition brightestPossible :: "SubtreeView \<Rightarrow> real" where
  "brightestPossible t =
     (if minPossibleDistance t > 1 then subtreeAppMag t (minPossibleDistance t) else - 100)"

definition largestPossible :: "ViewSettings \<Rightarrow> SubtreeView \<Rightarrow> real" where
  "largestPossible r t =
     (if minPossibleDistance t > 1
      then maxChildRadius t / minPossibleDistance t / pixelSize r
      else 100)"

definition bestCaseVisible :: "ViewSettings \<Rightarrow> SubtreeView \<Rightarrow> bool" where
  "bestCaseVisible r t \<longleftrightarrow>
     brightestPossible t < faintestPlanetMag r \<or> largestPossible r t > 1"

definition subtreeInfluenceRadius :: "SubtreeView \<Rightarrow> real" where
  "subtreeInfluenceRadius t =
     boundingSphereRadius t + maxChildRadius t * PLANETSHINE_DISTANCE_LIMIT_FACTOR"

definition insideInfluenceCone :: "ViewSettings \<Rightarrow> SubtreeView \<Rightarrow> bool" where
  "insideInfluenceCone r t =
     (let influenceRadius = subtreeInfluenceRadius t
      in if dist_vn t > - influenceRadius then
           (let maxPerpDist =
                  (influenceRadius + dist_vn t * sinViewAngle r) * invCosViewAngle r
            in perpDistSq t < maxPerpDist * maxPerpDist)
         else False)"

definition traverseSubtree :: "ViewSettings \<Rightarrow> SubtreeView \<Rightarrow> bool" where
  "traverseSubtree r t =
     (let traverse1 =
            (if bestCaseVisible r t then
               (if frustumTest t \<noteq> Outside then True else False)
             else False)
      in if containsSecondaryIlluminators t \<and> \<not> traverse1
            \<and> largestPossible r t > PLANETSHINE_PIXEL_SIZE_LIMIT
         then (if insideInfluenceCone r t then True else traverse1)
         else traverse1)"

text \<open>The third test of the claim: the subtree may light something in the view cone.\<close>

definition mayPlanetshine :: "ViewSettings \<Rightarrow> SubtreeView \<Rightarrow> bool" where
  "mayPlanetshine r t \<longleftrightarrow>
     containsSecondaryIlluminators t \<and> largestPossible r t > PLANETSHINE_PIXEL_SIZE_LIMIT
     \<and> insideInfluenceCone r t"

subsection \<open>Example subtrees\<close>

text \<open>
  A view with a cone half-angle of cosine 4/5, and three moon systems: one inside the
  frustum but too faint and too small to show, the same one with a bright moon, and one
  outside the frustum that contains a body reflecting light into the view cone.
\<close>

definition exampleView :: ViewSettings where
  "exampleView = \<lparr>faintestPlanetMag = 6, pixelSize = 1 / 1000, cosViewConeAngle = 4 / 5\<rparr>"

definition faintMoonSystem :: SubtreeView where
  "faintMoonSystem =
     \<lparr>dist_v = 1000000, dist_vn = 1000000, perpDistSq = 0, boundingSphereRadius = 1000,
      maxChildRadius = 1, containsSecondaryIlluminators = False, frustumTest = Inside,
      subtreeAppMag = (\<lambda>d. 20)\<rparr>"

definition brightMoonSystem :: SubtreeView where
  "brightMoonSystem = faintMoonSystem\<lparr>subtreeAppMag := (\<lambda>d. 2)\<rparr>"

definition reflectingSystem :: SubtreeView where
  "reflectingSystem =
     \<lparr>dist_v = 10000, dist_vn = 8000, perpDistSq = 36000000, boundingSphereRadius = 1000,
      maxChildRadius = 5, containsSecondaryIlluminators = True, frustumTest = Outside,
      subtreeAppMag = (\<lambda>d. 20)\<rparr>"

section \<open>Eclipse test \<open>Renderer::testEclipse\<close> (lines 4725 to 4869)\<close>

subsection \<open>Vectors\<close>

type_synonym vec3 = "real \<times> real \<times> real"

fun vadd :: "vec3 \<Rightarrow> vec3 \<Rightarrow> vec3" where
  "vadd (a, b, c) (x, y, z) = (a + x, b + y, c + z)"

fun vsub :: "vec3 \<Rightarrow> vec3 \<Rightarrow> vec3" where
  "vsub (a, b, c) (x, y, z) = (a - x, b - y, c - z)"

fun dot :: "vec3 \<Rightarrow> vec3 \<Rightarrow> real" where
  "dot (a, b, c) (x, y, z) = a * x + b * y + c * z"

fun cross :: "vec3 \<Rightarrow> vec3 \<Rightarrow> vec3" where
  "cross (a, b, c) (x, y, z) = (b * z - c * y, c * x - a * z, a * y - b * x)"

fun scale :: "real \<Rightarrow> vec3 \<Rightarrow> vec3" where
  "scale k (x, y, z) = (k * x, k * y, k * z)"

definition squaredNorm :: "vec3 \<Rightarrow> real" where
  "squaredNorm v = dot v v"

definition norm3 :: "vec3 \<Rightarrow> real" where
  "norm3 v = sqrt (squaredNorm v)"

definition normalized :: "vec3 \<Rightarrow> vec3" where
  "normalized v = scale (1 / norm3 v) v"

text \<open>A unit quaternion \<open>(w, x, y, z)\<close> and the rotation of a vector by it.\<close>

type_synonym quat = "real \<times> real \<times> real \<times> real"

fun rotate :: "quat \<Rightarrow> vec3 \<Rightarrow> vec3" where
  "rotate (w, x, y, z) v =
     (let u = (x, y, z); t = scale 2 (cross u v)
      in vadd (vadd v (scale w t)) (cross u t))"

definition UnitY :: vec3 where
  "UnitY = (0, 1, 0)"

text \<open>
  The distance from a point to a ray, \<open>distance(p, Ray3d(origin, direction))\<close>. The
  function belongs to the mathematics library of the program and is not part of
  render.cpp, so \<open>testEclipse\<close> takes it as a parameter; \<open>pointRayDistance\<close> is the
  geometric distance, used where a concrete function is needed.
\<close>

type_synonym rayDistance = "vec3 \<Rightarrow> vec3 \<Rightarrow> vec3 \<Rightarrow> real"

definition pointRayDistance :: rayDistance where
  "pointRayDistance p origin direction =
     (let t = dot (vsub p origin) direction / squaredNorm direction
      in if t \<le> 0 then norm3 (vsub p origin)
         else norm3 (vsub p (vadd origin (scale t direction))))"

subsection \<open>Bodies and lighting state\<close>

record RingSystem =
  innerRadius :: real
  outerRadius :: real

record Body =
  getRadius :: real
  hasVisibleGeometry :: bool
  extant :: "real \<Rightarrow> bool"
  isEllipsoid :: bool
  getAstrocentricPosition :: "real \<Rightarrow> vec3"
  getRings :: "RingSystem option"
  getOrientation :: "real \<Rightarrow> quat"

record DirectionalLight =
  light_position :: vec3
  apparentSize :: real

record EclipseShadow =
  shadow_origin :: vec3
  shadow_direction :: vec3
  penumbraRadius :: real
  umbraRadius :: real
  maxDepth :: real
  shadow_caster :: Body

record RingShadow =
  ring_origin :: vec3
  ring_direction :: vec3
  ringSystem :: "RingSystem option"
  ring_casterOrientation :: quat

record LightingState =
  lights :: "DirectionalLight list"
  shadows :: "EclipseShadow list list"
  ringShadows :: "RingShadow list"

definition MinRelativeOccluderRadius :: real where
  "MinRelativeOccluderRadius = 5 / 1000"

subsection \<open>The test\<close>

definition occluderRelevant :: "Body \<Rightarrow> Body \<Rightarrow> real \<Rightarrow> bool" where
  "occluderRelevant receiver caster now \<longleftrightarrow>
     getRadius caster \<ge> getRadius receiver * MinRelativeOccluderRadius \<and>
     hasVisibleGeometry caster \<and> extant caster now \<and> isEllipsoid caster"

definition distToCaster :: "Body \<Rightarrow> Body \<Rightarrow> real \<Rightarrow> real" where
  "distToCaster receiver caster now =
     norm3 (vsub (getAstrocentricPosition caster now) (getAstrocentricPosition receiver now))
       - getRadius receiver"

definition appOccluderRadius :: "Body \<Rightarrow> Body \<Rightarrow> real \<Rightarrow> real" where
  "appOccluderRadius receiver caster now = getRadius caster / distToCaster receiver caster now"

definition shadowRadius :: "Body \<Rightarrow> Body \<Rightarrow> DirectionalLight \<Rightarrow> real \<Rightarrow> real" where
  "shadowRadius receiver caster light now =
     (1 + apparentSize light / appOccluderRadius receiver caster now) * getRadius caster"

definition lightToCasterDir :: "Body \<Rightarrow> Body \<Rightarrow> DirectionalLight \<Rightarrow> real \<Rightarrow> vec3" where
  "lightToCasterDir receiver caster light now =
     (let lightPosition = vadd (getAstrocentricPosition receiver now) (light_position light)
      in vsub (getAstrocentricPosition caster now) lightPosition)"

definition receiverToCasterDir :: "Body \<Rightarrow> Body \<Rightarrow> real \<Rightarrow> vec3" where
  "receiverToCasterDir receiver caster now =
     vsub (getAstrocentricPosition receiver now) (getAstrocentricPosition caster now)"

definition shadowAxisDistance ::
  "rayDistance \<Rightarrow> Body \<Rightarrow> Body \<Rightarrow> DirectionalLight \<Rightarrow> real \<Rightarrow> real" where
  \<comment> \<open>The local \<open>dist\<close>.\<close>
  "shadowAxisDistance distance receiver caster light now =
     distance (getAstrocentricPosition receiver now)
       (getAstrocentricPosition caster now) (lightToCasterDir receiver caster light now)"

definition insideShadowVolume ::
  "rayDistance \<Rightarrow> Body \<Rightarrow> Body \<Rightarrow> DirectionalLight \<Rightarrow> real \<Rightarrow> bool" where
  "insideShadowVolume distance receiver caster light now \<longleftrightarrow>
     (let R = getRadius receiver + shadowRadius receiver caster light now
      in shadowAxisDistance distance receiver caster light now < R \<and>
         dot (lightToCasterDir receiver caster light now)
             (receiverToCasterDir receiver caster now) > 0)"

definition eclipseShadow :: "Body \<Rightarrow> Body \<Rightarrow> DirectionalLight \<Rightarrow> real \<Rightarrow> EclipseShadow" where
  "eclipseShadow receiver caster light now =
     (let appSunRadius = apparentSize light;
          appOccluder = appOccluderRadius receiver caster now
      in \<lparr>shadow_origin = vsub (getAstrocentricPosition caster now)
                       (getAstrocentricPosition receiver now),
          shadow_direction = normalized (lightToCasterDir receiver caster light now),
          penumbraRadius = shadowRadius receiver caster light now,
          umbraRadius = getRadius caster * (appOccluder - appSunRadius) / appOccluder,
          maxDepth = min 1 ((appOccluder / appSunRadius)\<^sup>2),
          shadow_caster = caster\<rparr>)"

definition ringShadowOf ::
  "rayDistance \<Rightarrow> Body \<Rightarrow> Body \<Rightarrow> DirectionalLight \<Rightarrow> nat \<Rightarrow> real \<Rightarrow>
   LightingState \<Rightarrow> LightingState" where
  "ringShadowOf distance receiver caster light lightIndex now ls =
     (case getRings caster of
        None \<Rightarrow> ls
      | Some rings \<Rightarrow>
          if shadowAxisDistance distance receiver caster light now
               < outerRadius rings + getRadius receiver
          then
            (let casterOrientation = getOrientation caster now;
                 ringPlaneNormal = rotate casterOrientation UnitY;
                 shadowDirection = normalized (lightToCasterDir receiver caster light now);
                 v = cross ringPlaneNormal shadowDirection;
                 shadowed = (if squaredNorm v < 1 / 1000000 then True else True)
             in if shadowed then
                  ls\<lparr>ringShadows := (ringShadows ls)[lightIndex :=
                        \<lparr>ring_origin = vsub (getAstrocentricPosition caster now)
                                            (getAstrocentricPosition receiver now),
                         ring_direction = shadowDirection,
                         ringSystem = getRings caster,
                         ring_casterOrientation = casterOrientation\<rparr>]\<rparr>
                else ls)
          else ls)"

text \<open>
  The result is \<open>None\<close> where the source has no defined behaviour in this model: the light
  index lies outside the arrays of the lighting state, or one of the divisions has a zero
  divisor (the source then computes with infinities or NaN).
\<close>

definition testEclipse ::
  "rayDistance \<Rightarrow> Body \<Rightarrow> Body \<Rightarrow> LightingState \<Rightarrow> nat \<Rightarrow> real \<Rightarrow>
   (bool \<times> LightingState) option" where
  "testEclipse distance receiver caster lightingState lightIndex now =
     (if lightIndex \<ge> length (lights lightingState)
         \<or> lightIndex \<ge> length (shadows lightingState)
         \<or> lightIndex \<ge> length (ringShadows lightingState) then None
      else
        (let light = lights lightingState ! lightIndex
         in if occluderRelevant receiver caster now then
              (if distToCaster receiver caster now = 0
                  \<or> appOccluderRadius receiver caster now = 0 then None
               else if insideShadowVolume distance receiver caster light now then
                 (if apparentSize light = 0 then None
                  else
                    (let shadow = eclipseShadow receiver caster light now;
                         ls1 = (if maxDepth shadow > 1 / 256
                                then lightingState\<lparr>shadows := (shadows lightingState)
                                       [lightIndex := shadows lightingState ! lightIndex @ [shadow]]\<rparr>
                                else lightingState)
                     in Some (True, ringShadowOf distance receiver caster light lightIndex now ls1)))
               else Some (False, ringShadowOf distance receiver caster light lightIndex now lightingState))
            else Some (False, lightingState)))"

subsection \<open>Example: a small moon in transit\<close>

definition planet :: Body where
  "planet = \<lparr>getRadius = 1, hasVisibleGeometry = True, extant = (\<lambda>t. True), isEllipsoid = True,
             getAstrocentricPosition = (\<lambda>t. (0, 0, 0)), getRings = None,
             getOrientation = (\<lambda>t. (1, 0, 0, 0))\<rparr>"

definition smallMoon :: Body where
  "smallMoon = \<lparr>getRadius = 9 / 1000, hasVisibleGeometry = True, extant = (\<lambda>t. True),
                isEllipsoid = True, getAstrocentricPosition = (\<lambda>t. (10, 0, 0)),
                getRings = None, getOrientation = (\<lambda>t. (1, 0, 0, 0))\<rparr>"

definition irregularMoon :: Body where
  "irregularMoon = smallMoon\<lparr>isEllipsoid := False\<rparr>"

definition sunlight :: LightingState where
  "sunlight = \<lparr>lights = [\<lparr>light_position = (1000, 0, 0), apparentSize = 2 / 100\<rparr>],
               shadows = [[]],
               ringShadows = [\<lparr>ring_origin = (0, 0, 0), ring_direction = (0, 0, 0),
                               ringSystem = None, ring_casterOrientation = (1, 0, 0, 0)\<rparr>]\<rparr>"

section \<open>Orbit sample cache in \<open>Renderer::renderOrbit\<close> (lines 1560 to 1729)\<close>

subsection \<open>Cached curve plots\<close>

text \<open>
  The class \<open>CurvePlot\<close> (curveplot.h, curveplot.cpp) is not part of render.cpp; the plot
  and its operations are modelled from the description of a cached orbit path in the spec:
  an ordered sequence of time-stamped samples covering a contiguous window
  \<open>[startTime, endTime]\<close>, strictly ordered by time, with samples appended and trimmed at
  either end, and a counter of the frame of last use.
\<close>

text \<open>
  Modelled from the spec: a sample (\<open>CurvePlotSample\<close>) is represented by its time stamp.
  All decisions of the cache are taken on the times; position and velocity are those of
  the orbit at that time.
\<close>

type_synonym CurvePlotSample = real

text \<open>
  Modelled from the spec: the class \<open>CurvePlot\<close>, as its sequence of samples and the frame
  of its last use (\<open>lastUsed\<close>, \<open>setLastUsed\<close>).
\<close>

record CurvePlot =
  samples :: "CurvePlotSample list"
  lastUsed :: "32 word"

text \<open>Modelled from the spec: \<open>CurvePlot::empty\<close>, the plot has no sample.\<close>

definition empty :: "CurvePlot \<Rightarrow> bool" where
  "empty plot \<longleftrightarrow> samples plot = []"

text \<open>
  Modelled from the spec: \<open>CurvePlot::startTime\<close> and \<open>CurvePlot::endTime\<close>, the times of
  the first and of the last sample. On an empty plot they have no meaning; the value 0
  chosen here is never observed, since \<open>renderOrbit\<close> only passes it to a trimming
  operation, which leaves an empty plot empty.
\<close>

definition startTime :: "CurvePlot \<Rightarrow> real" where
  "startTime plot = (case samples plot of [] \<Rightarrow> 0 | x # _ \<Rightarrow> x)"

definition endTime :: "CurvePlot \<Rightarrow> real" where
  "endTime plot = (if samples plot = [] then 0 else last (samples plot))"

text \<open>
  Modelled from the spec: \<open>CurvePlot::addSample\<close>. The samples stay strictly ordered by
  time and are added at either end: a sample later than the last one is appended, a
  sample earlier than the first one is prepended, any other sample is discarded.
\<close>

definition addSample :: "CurvePlotSample \<Rightarrow> CurvePlot \<Rightarrow> CurvePlot" where
  "addSample x plot =
     (if samples plot = [] \<or> x > last (samples plot) then plot\<lparr>samples := samples plot @ [x]\<rparr>
      else if x < hd (samples plot) then plot\<lparr>samples := x # samples plot\<rparr>
      else plot)"

text \<open>
  Modelled from the spec: \<open>CurvePlot::removeSamplesBefore\<close> trims from the front the
  samples earlier than \<open>t\<close>.
\<close>

definition removeSamplesBefore :: "real \<Rightarrow> CurvePlot \<Rightarrow> CurvePlot" where
  "removeSamplesBefore t plot = plot\<lparr>samples := dropWhile (\<lambda>x. x < t) (samples plot)\<rparr>"

text \<open>
  Modelled from the spec: \<open>CurvePlot::removeSamplesAfter\<close> trims from the back the samples
  later than \<open>t\<close>.
\<close>

definition removeSamplesAfter :: "real \<Rightarrow> CurvePlot \<Rightarrow> CurvePlot" where
  "removeSamplesAfter t plot =
     plot\<lparr>samples := rev (dropWhile (\<lambda>x. x > t) (rev (samples plot)))\<rparr>"

text \<open>\<open>OrbitSampler::insertForward\<close> and \<open>insertBackward\<close> (lines 1479 to 1493).\<close>

definition insertForward :: "CurvePlotSample list \<Rightarrow> CurvePlot \<Rightarrow> CurvePlot" where
  "insertForward sampled plot = fold addSample sampled plot"

definition insertBackward :: "CurvePlotSample list \<Rightarrow> CurvePlot \<Rightarrow> CurvePlot" where
  "insertBackward sampled plot = fold addSample (rev sampled) plot"

subsection \<open>Orbits, options and renderer state\<close>

text \<open>
  The interface of an orbit that \<open>renderOrbit\<close> uses. \<open>sample orbit a b\<close> is the sequence
  of samples that \<open>Orbit::sample(a, b, sampler)\<close> hands to the sampler, in order; the
  method is implemented by the orbit classes, outside render.cpp.
\<close>

record Orbit =
  isPeriodic :: bool
  getPeriod :: real
  getValidRange :: "real \<times> real"
  sample :: "real \<Rightarrow> real \<Rightarrow> CurvePlotSample list"

record DetailOptions =
  orbitWindowEnd :: real
  orbitPeriodsShown :: real

text \<open>
  The cache is a \<open>std::map\<close> from orbit addresses to plots: an association list with the
  address as key, in which \<open>renderOrbit\<close> never enters a key twice, so that its length is
  the size of the map. \<open>frameCount\<close> and \<open>lastOrbitCacheFlush\<close> are unsigned 32-bit
  counters, as is the frame of last use of a plot; their subtraction wraps around.
  \<open>shaderAvailable\<close> says whether the shader lookup at the top of \<open>renderOrbit\<close>
  succeeds; without the shader the function returns at once.
\<close>

record Renderer =
  orbitCache :: "(nat \<times> CurvePlot) list"
  frameCount :: "32 word"
  lastOrbitCacheFlush :: "32 word"
  shaderAvailable :: bool

definition OrbitCacheCullThreshold :: nat where
  "OrbitCacheCullThreshold = 200"

definition OrbitCacheRetireAge :: "32 word" where
  "OrbitCacheRetireAge = 16"

definition WindowSlack :: real where
  "WindowSlack = 2 / 10"

subsection \<open>Eviction (lines 1634 to 1651)\<close>

definition retired :: "Renderer \<Rightarrow> CurvePlot \<Rightarrow> bool" where
  "retired r plot \<longleftrightarrow> frameCount r - lastUsed plot > OrbitCacheRetireAge"

definition scanDue :: "Renderer \<Rightarrow> bool" where
  "scanDue r \<longleftrightarrow>
     length (orbitCache r) > OrbitCacheCullThreshold \<and> lastOrbitCacheFlush r \<noteq> frameCount r"

definition cullOrbitCache :: "Renderer \<Rightarrow> Renderer" where
  "cullOrbitCache r =
     (if length (orbitCache r) > OrbitCacheCullThreshold then
        (if lastOrbitCacheFlush r \<noteq> frameCount r then
           r\<lparr>orbitCache := filter (\<lambda>(k, plot). \<not> retired r plot) (orbitCache r),
             lastOrbitCacheFlush := frameCount r\<rparr>
         else r)
      else r)"

subsection \<open>Sliding the sample window (lines 1686 to 1729)\<close>

definition windowEnd :: "DetailOptions \<Rightarrow> Orbit \<Rightarrow> real \<Rightarrow> real" where
  \<comment> \<open>The local \<open>endTime\<close>.\<close>
  "windowEnd opts orbit t = t + getPeriod orbit * orbitWindowEnd opts"

definition windowStart :: "DetailOptions \<Rightarrow> Orbit \<Rightarrow> real \<Rightarrow> real" where
  \<comment> \<open>The local \<open>startTime\<close>.\<close>
  "windowStart opts orbit t = windowEnd opts orbit t - getPeriod orbit * orbitPeriodsShown opts"

definition newWindowStart :: "DetailOptions \<Rightarrow> Orbit \<Rightarrow> real \<Rightarrow> real" where
  "newWindowStart opts orbit t = windowStart opts orbit t - getPeriod orbit * WindowSlack"

definition newWindowEnd :: "DetailOptions \<Rightarrow> Orbit \<Rightarrow> real \<Rightarrow> real" where
  "newWindowEnd opts orbit t = windowEnd opts orbit t + getPeriod orbit * WindowSlack"

definition forwardSampleStart :: "DetailOptions \<Rightarrow> Orbit \<Rightarrow> real \<Rightarrow> CurvePlot \<Rightarrow> real" where
  \<comment> \<open>Where the forward case starts to sample: \<open>max(currentWindowEnd, newWindowStart)\<close>.\<close>
  "forwardSampleStart opts orbit t cachedOrbit =
     max (endTime cachedOrbit) (newWindowStart opts orbit t)"

definition slideBackward :: "DetailOptions \<Rightarrow> Orbit \<Rightarrow> real \<Rightarrow> CurvePlot \<Rightarrow> CurvePlot" where
  "slideBackward opts orbit t cachedOrbit =
     (let currentWindowStart = startTime cachedOrbit;
          p1 = removeSamplesAfter (newWindowEnd opts orbit t) cachedOrbit;
          p2 = removeSamplesBefore (startTime p1 * (1 + 1 / 10 ^ 15)) p1
      in insertBackward
           (sample orbit (newWindowStart opts orbit t)
              (min currentWindowStart (newWindowEnd opts orbit t))) p2)"

definition slideForward :: "DetailOptions \<Rightarrow> Orbit \<Rightarrow> real \<Rightarrow> CurvePlot \<Rightarrow> CurvePlot" where
  "slideForward opts orbit t cachedOrbit =
     (let p1 = removeSamplesBefore (newWindowStart opts orbit t) cachedOrbit;
          p2 = removeSamplesAfter (endTime p1 * (1 - 1 / 10 ^ 15)) p1
      in insertForward
           (sample orbit (forwardSampleStart opts orbit t cachedOrbit)
              (newWindowEnd opts orbit t)) p2)"

definition updateWindow :: "DetailOptions \<Rightarrow> Orbit \<Rightarrow> real \<Rightarrow> CurvePlot \<Rightarrow> CurvePlot" where
  "updateWindow opts orbit t cachedOrbit =
     (if isPeriodic orbit then
        (if windowStart opts orbit t < startTime cachedOrbit
         then slideBackward opts orbit t cachedOrbit
         else if windowEnd opts orbit t > endTime cachedOrbit
         then slideForward opts orbit t cachedOrbit
         else cachedOrbit)
      else cachedOrbit)"

subsection \<open>The cache part of \<open>renderOrbit\<close>\<close>

text \<open>
  The plot created on a cache miss (lines 1592 to 1632). The sample count \<open>nSamples\<close> that
  the source computes there is not passed to the sampling call and does not appear.
\<close>

definition newCachedOrbit :: "Renderer \<Rightarrow> Orbit \<Rightarrow> real \<Rightarrow> CurvePlot" where
  "newCachedOrbit r orbit t =
     (let start =
            (if \<not> isPeriodic orbit then
               (if fst (getValidRange orbit) \<noteq> snd (getValidRange orbit)
                then fst (getValidRange orbit) else t)
             else t - getPeriod orbit)
      in insertForward (sample orbit start (start + getPeriod orbit))
           \<lparr>samples = [], lastUsed = frameCount r\<rparr>)"

definition finishOrbit :: "DetailOptions \<Rightarrow> Orbit \<Rightarrow> real \<Rightarrow> CurvePlot \<Rightarrow> CurvePlot" where
  \<comment> \<open>From line 1656: nothing more happens to an empty plot.\<close>
  "finishOrbit opts orbit t cachedOrbit =
     (if empty cachedOrbit then cachedOrbit else updateWindow opts orbit t cachedOrbit)"

definition renderOrbit :: "DetailOptions \<Rightarrow> nat \<Rightarrow> Orbit \<Rightarrow> real \<Rightarrow> Renderer \<Rightarrow> Renderer" where
  "renderOrbit opts key orbit t r =
     (if \<not> shaderAvailable r then r
      else
        (case map_of (orbitCache r) key of
           Some cached \<Rightarrow>
             (let cachedOrbit = cached\<lparr>lastUsed := frameCount r\<rparr>
              in r\<lparr>orbitCache :=
                     AList.update key (finishOrbit opts orbit t cachedOrbit) (orbitCache r)\<rparr>)
         | None \<Rightarrow>
             (let cachedOrbit = newCachedOrbit r orbit t;
                  r1 = cullOrbitCache r
              in r1\<lparr>orbitCache :=
                      AList.update key (finishOrbit opts orbit t cachedOrbit) (orbitCache r1)\<rparr>)))"

text \<open>Several orbits rendered in one frame, and the number of eviction scans they cause.\<close>

fun renderOrbits :: "DetailOptions \<Rightarrow> (nat \<times> Orbit \<times> real) list \<Rightarrow> Renderer \<Rightarrow> Renderer" where
  "renderOrbits opts [] r = r"
| "renderOrbits opts ((key, orbit, t) # reqs) r =
     renderOrbits opts reqs (renderOrbit opts key orbit t r)"

definition scanRuns :: "nat \<Rightarrow> Renderer \<Rightarrow> bool" where
  "scanRuns key r \<longleftrightarrow> shaderAvailable r \<and> map_of (orbitCache r) key = None \<and> scanDue r"

fun scanCount :: "DetailOptions \<Rightarrow> (nat \<times> Orbit \<times> real) list \<Rightarrow> Renderer \<Rightarrow> nat" where
  "scanCount opts [] r = 0"
| "scanCount opts ((key, orbit, t) # reqs) r =
     (if scanRuns key r then 1 else 0) + scanCount opts reqs (renderOrbit opts key orbit t r)"

subsection \<open>Properties of the cache\<close>

text \<open>The desired display window lies inside the cached window.\<close>

definition windowCovered :: "DetailOptions \<Rightarrow> Orbit \<Rightarrow> real \<Rightarrow> CurvePlot \<Rightarrow> bool" where
  "windowCovered opts orbit t plot \<longleftrightarrow>
     startTime plot \<le> windowStart opts orbit t \<and> windowEnd opts orbit t \<le> endTime plot"

text \<open>The cached samples of every orbit, without the time stamps of their last use.\<close>

definition cachedSamples :: "Renderer \<Rightarrow> (nat \<times> CurvePlotSample list) list" where
  "cachedSamples r = map (\<lambda>(k, plot). (k, samples plot)) (orbitCache r)"

subsection \<open>Example orbit and options\<close>

text \<open>
  An orbit of period 100 whose sampler returns five equidistant samples of the requested
  range, both ends included; the default window options and two variants; an empty cache,
  a cache of 201 plots all used in the current frame, and a cache of 201 plots of which
  100 were last used 40 frames ago; and the plot that the first query of the example
  leaves in the cache.
\<close>

definition uniformSamples :: "nat \<Rightarrow> real \<Rightarrow> real \<Rightarrow> CurvePlotSample list" where
  "uniformSamples n a b = map (\<lambda>i. a + (b - a) * real i / real n) [0..<n + 1]"

definition orbit100 :: Orbit where
  "orbit100 = \<lparr>isPeriodic = True, getPeriod = 100, getValidRange = (0, 0),
               sample = uniformSamples 4\<rparr>"

definition defaultOptions :: DetailOptions where
  "defaultOptions = \<lparr>orbitWindowEnd = 1 / 2, orbitPeriodsShown = 1\<rparr>"

definition halfPeriodOptions :: DetailOptions where
  "halfPeriodOptions = \<lparr>orbitWindowEnd = 1 / 2, orbitPeriodsShown = 1 / 2\<rparr>"

definition twoPeriodOptions :: DetailOptions where
  "twoPeriodOptions = \<lparr>orbitWindowEnd = 1 / 2, orbitPeriodsShown = 2\<rparr>"

definition emptyRenderer :: Renderer where
  "emptyRenderer = \<lparr>orbitCache = [], frameCount = 0, lastOrbitCacheFlush = 0,
                    shaderAvailable = True\<rparr>"

definition plotUsedAt :: "32 word \<Rightarrow> CurvePlot" where
  "plotUsedAt frame = \<lparr>samples = [0], lastUsed = frame\<rparr>"

definition activeCache :: Renderer where
  "activeCache =
     \<lparr>orbitCache = map (\<lambda>k. (k, plotUsedAt 5)) [0..<201],
      frameCount = 5, lastOrbitCacheFlush = 4, shaderAvailable = True\<rparr>"

definition agedCache :: Renderer where
  "agedCache =
     \<lparr>orbitCache = map (\<lambda>k. (k, plotUsedAt 0)) [0..<100] @ map (\<lambda>k. (k, plotUsedAt 40)) [100..<201],
      frameCount = 40, lastOrbitCacheFlush = 39, shaderAvailable = True\<rparr>"

definition firstWindow :: CurvePlot where
  "firstWindow = \<lparr>samples = [- 50, - 25, 0, 35 / 2, 35, 105 / 2, 70], lastUsed = 0\<rparr>"

section \<open>Verification of the depth partitioning\<close>

lemmas partition_defs =
  partitionDepth_def orbitFarthest_def frontInterval_def closestOf_def zNearestOf_def
  annotationNearest_def orbitNearest_def scan_def scanStep_def expandInterval_def
  newInterval_def push_back_def initialState_def initialPrevNear_def MinNearPlaneDistance_def

lemma exampleRenderList_partitions:
  "depthPartitions (partitionDepth exampleRenderList [] []) =
     [\<lparr>index = 0, nearZ = - 10, farZ = - (101 / 10)\<rparr>,
      \<lparr>index = 1, nearZ = - 8, farZ = - 10\<rparr>,
      \<lparr>index = 2, nearZ = - 4, farZ = - 8\<rparr>,
      \<lparr>index = 3, nearZ = - 1, farZ = - 4\<rparr>,
      \<lparr>index = 4, nearZ = - (1 / 100), farZ = - 1\<rparr>]"
  by (simp add: partition_defs exampleRenderList_def Let_def)

subsection \<open>The scan invariant\<close>

lemma gapFree_snoc:
  "gapFree (ps @ [p]) \<longleftrightarrow> gapFree ps \<and> (ps \<noteq> [] \<longrightarrow> farZ p \<le> nearZ (last ps))"
proof
  assume g: "gapFree (ps @ [p])"
  have "gapFree ps"
    unfolding gapFree_def
  proof (intro allI impI)
    fix i assume i: "0 < i \<and> i < length ps"
    then have "farZ ((ps @ [p]) ! i) \<le> nearZ ((ps @ [p]) ! (i - 1))"
      using g by (simp add: gapFree_def)
    moreover from i have "i - 1 < length ps" by auto
    ultimately show "farZ (ps ! i) \<le> nearZ (ps ! (i - 1))"
      using i by (simp add: nth_append)
  qed
  moreover have "ps \<noteq> [] \<longrightarrow> farZ p \<le> nearZ (last ps)"
  proof
    assume ne: "ps \<noteq> []"
    then have "0 < length ps \<and> length ps < length (ps @ [p])" by simp
    then have "farZ ((ps @ [p]) ! length ps) \<le> nearZ ((ps @ [p]) ! (length ps - 1))"
      using g unfolding gapFree_def by blast
    with ne show "farZ p \<le> nearZ (last ps)"
      by (simp add: nth_append last_conv_nth)
  qed
  ultimately show "gapFree ps \<and> (ps \<noteq> [] \<longrightarrow> farZ p \<le> nearZ (last ps))" ..
next
  assume a: "gapFree ps \<and> (ps \<noteq> [] \<longrightarrow> farZ p \<le> nearZ (last ps))"
  show "gapFree (ps @ [p])"
    unfolding gapFree_def
  proof (intro allI impI)
    fix i assume i: "0 < i \<and> i < length (ps @ [p])"
    show "farZ ((ps @ [p]) ! i) \<le> nearZ ((ps @ [p]) ! (i - 1))"
    proof (cases "i < length ps")
      case True
      moreover from i have "i - 1 < length ps" by auto
      ultimately show ?thesis using a i by (simp add: gapFree_def nth_append)
    next
      case False
      with i have e: "i = length ps" by simp
      with i have "ps \<noteq> []" by auto
      with a e show ?thesis by (simp add: nth_append last_conv_nth)
    qed
  qed
qed

lemma gapFree_update_last:
  assumes "gapFree ps" and "farZ p' \<le> farZ (ps ! (length ps - 1))"
  shows "gapFree (ps[length ps - 1 := p'])"
  unfolding gapFree_def
proof (intro allI impI)
  fix i assume i: "0 < i \<and> i < length (ps[length ps - 1 := p'])"
  then have old: "farZ (ps ! i) \<le> nearZ (ps ! (i - 1))"
    using assms(1) by (simp add: gapFree_def)
  show "farZ (ps[length ps - 1 := p'] ! i) \<le> nearZ (ps[length ps - 1 := p'] ! (i - 1))"
  proof (cases "i = length ps - 1")
    case True
    with i old assms(2) show ?thesis by (auto simp: nth_list_update)
  next
    case False
    with i old show ?thesis by (auto simp: nth_list_update)
  qed
qed

lemma gapFree_update_first:
  assumes "gapFree ps" and "nearZ p' = nearZ (ps ! 0)"
  shows "gapFree (ps[0 := p'])"
  unfolding gapFree_def
proof (intro allI impI)
  fix i assume i: "0 < i \<and> i < length (ps[0 := p'])"
  then have old: "farZ (ps ! i) \<le> nearZ (ps ! (i - 1))"
    using assms(1) by (simp add: gapFree_def)
  show "farZ (ps[0 := p'] ! i) \<le> nearZ (ps[0 := p'] ! (i - 1))"
  proof (cases "i = 1")
    case True
    with i have "ps \<noteq> []" by auto
    with True i old assms(2) show ?thesis by simp
  next
    case False
    with i old show ?thesis by (auto simp: nth_list_update)
  qed
qed

lemma scanInv_initial: "scanInv (initialState rl)"
  by (simp add: scanInv_def initialState_def gapFree_def)

lemma scanInv_newInterval: "scanInv s \<Longrightarrow> scanInv (newInterval e s)"
  by (auto simp: scanInv_def newInterval_def push_back_def Let_def gapFree_snoc nth_append)

lemma scanInv_expandInterval:
  assumes "scanInv s" and "nIntervals s \<noteq> 0"
  shows "scanInv (expandInterval e s)"
proof -
  let ?ps = "depthPartitions s"
  from assms have ne: "?ps \<noteq> []" and n: "nIntervals s = length ?ps"
    by (auto simp: scanInv_def)
  let ?k = "length ?ps - 1"
  let ?p' = "(?ps ! ?k)\<lparr>nearZ := max (nearZ (?ps ! ?k)) (rle_nearZ e),
                          farZ := min (farZ (?ps ! ?k)) (rle_farZ e)\<rparr>"
  have ex: "expandInterval e s = s\<lparr>depthPartitions := ?ps[?k := ?p'], prevNear := nearZ ?p'\<rparr>"
    by (simp add: expandInterval_def Let_def n)
  have g: "gapFree (?ps[?k := ?p'])"
    using assms(1) by (intro gapFree_update_last) (simp_all add: scanInv_def)
  have l: "last (?ps[?k := ?p']) = ?p'"
    using ne by (simp add: last_conv_nth)
  have idx: "\<forall>j < length ?ps. index (?ps[?k := ?p'] ! j) = j"
    using assms(1) by (auto simp: scanInv_def nth_list_update)
  show ?thesis
    unfolding ex using g l idx n ne by (simp add: scanInv_def)
qed

lemma scanInv_scanStep: "scanInv s \<Longrightarrow> scanInv (scanStep e s)"
  by (simp add: scanStep_def scanInv_newInterval scanInv_expandInterval)

lemma scanInv_fold: "scanInv s \<Longrightarrow> scanInv (fold scanStep es s)"
  by (induction es arbitrary: s) (simp_all add: scanInv_scanStep)

lemma scanInv_scan: "scanInv (scan rl)"
  by (simp add: scan_def scanInv_fold scanInv_initial)

lemma scanInv_frontInterval: "scanInv s \<Longrightarrow> gapFree (depthPartitions (frontInterval rl orbs anns s))"
  by (auto simp: scanInv_def frontInterval_def push_back_def Let_def gapFree_snoc)

lemma gapFree_orbitFarthest:
  "gapFree (depthPartitions s) \<Longrightarrow> gapFree (depthPartitions (orbitFarthest orbs s))"
  by (simp add: orbitFarthest_def Let_def gapFree_update_first)

lemma gapFree_partitionDepth: "gapFree (depthPartitions (partitionDepth rl orbs anns))"
  by (simp add: partitionDepth_def gapFree_orbitFarthest scanInv_frontInterval scanInv_scan)

text \<open>
  Claim C1. For every render list, orbit list and annotation list, the intervals that the
  partitioning block of \<open>draw\<close> produces (the filler intervals, the interval of each
  object, the expansions and the final frontmost interval included) satisfy, for every pair
  of consecutive intervals in construction order, \<open>interval[i].farZ \<le> interval[i-1].nearZ\<close>.
  In camera space a smaller z is farther away, so each interval starts at or beyond the
  near bound of its predecessor: no depth between them is left uncovered, and an expanded
  interval may overlap its predecessor.
\<close>

theorem partition_gap_free:
  assumes "ps = depthPartitions (partitionDepth renderList orbitPathList annotations)"
    and "0 < i" and "i < length ps"
  shows "farZ (ps ! i) \<le> nearZ (ps ! (i - 1))"
  using gapFree_partitionDepth [of renderList orbitPathList annotations] assms
  by (simp add: gapFree_def)

theorem partition_gap_free_witness:
  "(0::nat) < 3 \<and> 3 < length (depthPartitions (partitionDepth exampleRenderList [] [])) \<and>
   farZ (depthPartitions (partitionDepth exampleRenderList [] []) ! 3)
     \<le> nearZ (depthPartitions (partitionDepth exampleRenderList [] []) ! (3 - 1))"
  using partition_gap_free
    [of "depthPartitions (partitionDepth exampleRenderList [] [])" exampleRenderList "[]" "[]" 3]
  by (simp add: exampleRenderList_partitions)

lemma length_frontInterval:
  "scanInv s \<Longrightarrow> nIntervals (frontInterval rl orbs anns s) = length (depthPartitions (frontInterval rl orbs anns s))
     \<and> length (depthPartitions (frontInterval rl orbs anns s)) = length (depthPartitions s) + 1"
  by (simp add: scanInv_def frontInterval_def push_back_def Let_def)


lemma length_orbitFarthest [simp]:
  "length (depthPartitions (orbitFarthest orbs s)) = length (depthPartitions s)"
  by (simp add: orbitFarthest_def Let_def)

lemma nIntervals_orbitFarthest [simp]:
  "nIntervals (orbitFarthest orbs s) = nIntervals s"
  by (simp add: orbitFarthest_def Let_def)


lemma nIntervals_partitionDepth:
  "nIntervals (partitionDepth rl orbs anns) = length (depthPartitions (partitionDepth rl orbs anns))"
  "1 \<le> length (depthPartitions (partitionDepth rl orbs anns))"
  using length_frontInterval [OF scanInv_scan, where rl = rl and orbs = orbs and anns = anns]
  by (simp_all add: partitionDepth_def)


subsection \<open>Rounding to single precision\<close>

lemma roundHalfEven_error: "\<bar>of_int (roundHalfEven y) - y\<bar> \<le> 1 / 2"
  unfolding roundHalfEven_def Let_def by (auto simp: abs_if) linarith+

lemma roundSingle_error: "\<bar>roundSingle x - x\<bar> \<le> \<bar>x\<bar> / 2 ^ 24"
proof (cases "x = 0")
  case True
  then show ?thesis by (simp add: roundSingle_def)
next
  case False
  define e where "e = \<lfloor>log 2 \<bar>x\<bar>\<rfloor>"
  define u :: real where "u = 2 powr (of_int e - 23)"
  have upos: "0 < u" by (simp add: u_def)
  have r: "roundSingle x = of_int (roundHalfEven (x / u)) * u"
    using False by (simp add: roundSingle_def e_def u_def Let_def)
  have "of_int e \<le> log 2 \<bar>x\<bar>" by (simp add: e_def)
  then have "(2::real) powr (of_int e) \<le> 2 powr (log 2 \<bar>x\<bar>)" by simp
  then have le: "(2::real) powr (of_int e) \<le> \<bar>x\<bar>" using False by simp
  have "u = 2 powr (of_int e) / 2 ^ 23"
    by (simp add: u_def powr_diff)
  then have u2: "u / 2 \<le> \<bar>x\<bar> / 2 ^ 24" using le by simp
  have "roundSingle x - x = (of_int (roundHalfEven (x / u)) - x / u) * u"
    using upos by (simp add: r field_simps)
  then have "\<bar>roundSingle x - x\<bar> = \<bar>of_int (roundHalfEven (x / u)) - x / u\<bar> * u"
    using upos by (simp add: abs_mult)
  also have "\<dots> \<le> (1 / 2) * u"
    using roundHalfEven_error [of "x / u"] upos by (intro mult_right_mono) simp_all
  also have "\<dots> \<le> \<bar>x\<bar> / 2 ^ 24" using u2 by simp
  finally show ?thesis .
qed

lemma roundSingle_eval:
  assumes "2 ^ 23 \<le> \<bar>x\<bar> * 2 ^ k" and "\<bar>x\<bar> * 2 ^ k < 2 ^ 24"
  shows "roundSingle x = of_int (roundHalfEven (x * 2 ^ k)) / 2 ^ k"
proof -
  have x0: "x \<noteq> 0" using assms(1) by auto
  have xpos: "0 < \<bar>x\<bar>" using x0 by simp
  have "\<lfloor>log 2 \<bar>x\<bar>\<rfloor> = 23 - int k"
  proof -
    have "(2::real) powr (of_int (23 - int k)) = 2 ^ 23 / 2 ^ k"
      by (simp add: powr_diff powr_realpow)
    moreover have "(2::real) powr (of_int (23 - int k) + 1) = 2 ^ 24 / 2 ^ k"
      by (simp add: powr_diff powr_realpow powr_add)
    moreover have "2 ^ 23 / 2 ^ k \<le> \<bar>x\<bar>" using assms(1) by (simp add: field_simps)
    moreover have "\<bar>x\<bar> < 2 ^ 24 / 2 ^ k" using assms(2) by (simp add: field_simps)
    ultimately have "(2::real) powr (of_int (23 - int k)) \<le> \<bar>x\<bar> \<and> \<bar>x\<bar> < 2 powr (of_int (23 - int k) + 1)"
      by simp
    then show ?thesis using xpos by (simp add: floor_log_eq_powr_iff)
  qed
  then have "(2::real) powr (of_int \<lfloor>log 2 \<bar>x\<bar>\<rfloor> - 23) = 2 powr (- real k)"
    by simp
  then have "(2::real) powr (of_int \<lfloor>log 2 \<bar>x\<bar>\<rfloor> - 23) = 1 / 2 ^ k"
    by (simp add: powr_minus powr_realpow field_simps)
  then show ?thesis using x0 by (simp add: roundSingle_def Let_def)
qed

lemma roundSingle_bounds:
  assumes "0 \<le> x"
  shows "x * (1 - 1 / 2 ^ 24) \<le> roundSingle x" and "roundSingle x \<le> x * (1 + 1 / 2 ^ 24)"
proof -
  have "\<bar>roundSingle x - x\<bar> \<le> x / 2 ^ 24"
    using roundSingle_error [of x] assms by simp
  then have "roundSingle x - x \<le> x / 2 ^ 24" and "x - roundSingle x \<le> x / 2 ^ 24"
    by linarith+
  then show "x * (1 - 1 / 2 ^ 24) \<le> roundSingle x" and "roundSingle x \<le> x * (1 + 1 / 2 ^ 24)"
    by (simp_all add: algebra_simps)
qed

lemma depthBound_error:
  assumes "1 \<le> n" and "j \<le> n"
  shows "\<bar>depthBound n j - (1 - real j / real n)\<bar> \<le> 1 / 2 ^ 21"
proof -
  define lo :: real where "lo = 1 - 1 / 2 ^ 24"
  define hi :: real where "hi = 1 + 1 / 2 ^ 24"
  have lohi: "0 < lo" "lo \<le> 1" "1 \<le> hi" "0 < hi" by (simp_all add: lo_def hi_def)
  define a where "a = toFloat n"
  define s where "s = intervalSize n"
  define m where "m = toFloat j"
  define p where "p = roundSingle (m * s)"
  define t where "t = real j / real n"
  have npos: "0 < real n" using assms(1) by simp
  have t01: "0 \<le> t" "t \<le> 1" using assms by (simp_all add: t_def)
  have a_lo: "real n * lo \<le> a" and a_hi: "a \<le> real n * hi"
    using roundSingle_bounds [of "real n"] by (simp_all add: a_def toFloat_def lo_def hi_def)
  have apos: "0 < a" using a_lo npos lohi(1) by (meson less_le_trans mult_pos_pos)
  have s_def': "s = roundSingle (1 / a)"
    using assms(1) by (simp add: s_def intervalSize_def a_def max_def)
  have s_lo: "(1 / a) * lo \<le> s" and s_hi: "s \<le> (1 / a) * hi"
    using roundSingle_bounds [of "1 / a"] apos by (simp_all add: s_def' lo_def hi_def)
  have inv_hi: "1 / a \<le> 1 / (real n * lo)"
    using a_lo npos lohi(1) by (intro divide_left_mono) (simp_all add: apos)
  have inv_lo: "1 / (real n * hi) \<le> 1 / a"
    using a_hi npos lohi(4) apos by (intro divide_left_mono) simp_all
  have s_hi': "s \<le> hi / (real n * lo)"
  proof -
    have "(1 / a) * hi \<le> (1 / (real n * lo)) * hi"
      using inv_hi lohi(4) by (intro mult_right_mono) simp_all
    with s_hi show ?thesis by simp
  qed
  have s_lo': "lo / (real n * hi) \<le> s"
  proof -
    have "(1 / (real n * hi)) * lo \<le> (1 / a) * lo"
      using inv_lo lohi(1) by (intro mult_right_mono) simp_all
    with s_lo show ?thesis by simp
  qed
  have spos: "0 \<le> s" using s_lo' npos lohi by (meson divide_nonneg_pos less_imp_le mult_pos_pos order_trans)
  have m_lo: "real j * lo \<le> m" and m_hi: "m \<le> real j * hi"
    using roundSingle_bounds [of "real j"] by (simp_all add: m_def toFloat_def lo_def hi_def)
  have mpos: "0 \<le> m" using m_lo lohi(1) by (meson less_imp_le mult_nonneg_nonneg of_nat_0_le_iff order_trans)
  have ms_hi: "m * s \<le> (real j * hi) * (hi / (real n * lo))"
    using m_hi s_hi' mpos spos lohi by (intro mult_mono) simp_all
  have ms_lo: "(real j * lo) * (lo / (real n * hi)) \<le> m * s"
    using m_lo s_lo' lohi npos mpos by (intro mult_mono) simp_all
  have mspos: "0 \<le> m * s" using mpos spos by simp
  have p_lo: "(m * s) * lo \<le> p" and p_hi: "p \<le> (m * s) * hi"
    using roundSingle_bounds [of "m * s"] mspos by (simp_all add: p_def lo_def hi_def)
  have p_hi': "p \<le> t * (hi ^ 3 / lo)"
  proof -
    have "(m * s) * hi \<le> ((real j * hi) * (hi / (real n * lo))) * hi"
      using ms_hi lohi(4) by (intro mult_right_mono) simp_all
    also have "\<dots> = t * (hi ^ 3 / lo)"
      by (simp add: t_def power3_eq_cube)
    finally show ?thesis using p_hi by simp
  qed
  have p_lo': "t * (lo ^ 3 / hi) \<le> p"
  proof -
    have "t * (lo ^ 3 / hi) = ((real j * lo) * (lo / (real n * hi))) * lo"
      by (simp add: t_def power3_eq_cube)
    also have "\<dots> \<le> (m * s) * lo"
      using ms_lo lohi(1) by (intro mult_right_mono) simp_all
    finally show ?thesis using p_lo by simp
  qed
  have U: "hi ^ 3 / lo \<le> 1 + 5 / 2 ^ 24" and L: "1 - 5 / 2 ^ 24 \<le> lo ^ 3 / hi"
    by (simp_all add: lo_def hi_def field_simps)
  have "p \<le> t * (1 + 5 / 2 ^ 24)"
    using p_hi' U t01(1) by (meson mult_left_mono order_trans)
  then have pt_hi: "p - t \<le> 5 / 2 ^ 24"
    using t01 by (simp add: algebra_simps)
  have "t * (1 - 5 / 2 ^ 24) \<le> p"
    using p_lo' L t01(1) by (meson mult_left_mono order_trans)
  then have pt_lo: "t - p \<le> 5 / 2 ^ 24"
    using t01 by (simp add: algebra_simps)
  have abs1p: "\<bar>1 - p\<bar> \<le> 1 + 5 / 2 ^ 24"
    using pt_hi pt_lo t01 by linarith
  have "\<bar>roundSingle (1 - p) - (1 - p)\<bar> \<le> \<bar>1 - p\<bar> / 2 ^ 24"
    by (rule roundSingle_error)
  also have "\<dots> \<le> (1 + 5 / 2 ^ 24) / 2 ^ 24"
    using abs1p by (simp add: divide_right_mono)
  also have "\<dots> \<le> 2 / 2 ^ 24" by simp
  finally have q: "\<bar>roundSingle (1 - p) - (1 - p)\<bar> \<le> 2 / 2 ^ 24" .
  have "depthBound n j = roundSingle (1 - p)"
    by (simp add: depthBound_def p_def m_def s_def)
  then have "\<bar>depthBound n j - (1 - t)\<bar> \<le> 7 / 2 ^ 24"
    using q pt_hi pt_lo by linarith
  then show ?thesis by (simp add: t_def)
qed

lemma roundHalfEven_of_int [simp]: "roundHalfEven (of_int m) = m"
  by (simp add: roundHalfEven_def)

lemma roundHalfEven_cases: "roundHalfEven y = \<lfloor>y\<rfloor> \<or> roundHalfEven y = \<lfloor>y\<rfloor> + 1"
  by (simp add: roundHalfEven_def Let_def)

lemma roundHalfEven_mono:
  assumes "x \<le> y"
  shows "roundHalfEven x \<le> roundHalfEven y"
proof (cases "\<lfloor>x\<rfloor> = \<lfloor>y\<rfloor>")
  case True
  with assms show ?thesis by (auto simp: roundHalfEven_def Let_def)
next
  case False
  have "\<lfloor>x\<rfloor> \<le> \<lfloor>y\<rfloor>" using assms by (rule floor_mono)
  with False have "\<lfloor>x\<rfloor> + 1 \<le> \<lfloor>y\<rfloor>" by simp
  then show ?thesis
    using roundHalfEven_cases [of x] roundHalfEven_cases [of y] by auto
qed

lemma roundHalfEven_minus: "roundHalfEven (- y) = - roundHalfEven y"
proof (cases "y = of_int \<lfloor>y\<rfloor>")
  case True
  then have "- y = of_int (- \<lfloor>y\<rfloor>)" by simp
  then have "roundHalfEven (- y) = - \<lfloor>y\<rfloor>" by (simp only: roundHalfEven_of_int)
  moreover have "roundHalfEven y = \<lfloor>y\<rfloor>" using True roundHalfEven_of_int [of "\<lfloor>y\<rfloor>"] by simp
  ultimately show ?thesis by simp
next
  case False
  then have f: "\<lfloor>- y\<rfloor> = - \<lfloor>y\<rfloor> - 1"
    by (simp add: floor_minus ceiling_altdef)
  have d: "0 < y - of_int \<lfloor>y\<rfloor>" using False by (simp add: less_le)
  show ?thesis
    unfolding roundHalfEven_def Let_def f using d by auto
qed

lemma roundSingle_minus: "roundSingle (- x) = - roundSingle x"
  by (simp add: roundSingle_def Let_def roundHalfEven_minus)

lemma roundSingle_binade:
  assumes "0 < x"
  shows "2 powr (of_int \<lfloor>log 2 x\<rfloor>) \<le> roundSingle x"
    and "roundSingle x \<le> 2 powr (of_int \<lfloor>log 2 x\<rfloor> + 1)"
proof -
  define e where "e = \<lfloor>log 2 x\<rfloor>"
  define u :: real where "u = 2 powr (of_int e - 23)"
  have upos: "0 < u" by (simp add: u_def)
  have r: "roundSingle x = of_int (roundHalfEven (x / u)) * u"
    using assms by (simp add: roundSingle_def e_def u_def Let_def)
  have lo: "(2::real) powr (of_int e) \<le> x" and hi: "x < 2 powr (of_int e + 1)"
    using assms floor_log_eq_powr_iff [of x 2 e] by (simp_all add: e_def)
  have u23: "u * 2 ^ 23 = 2 powr (of_int e)" and u24: "u * 2 ^ 24 = 2 powr (of_int e + 1)"
    by (simp_all add: u_def powr_diff powr_add)
  have "(2::real) ^ 23 \<le> x / u" using lo upos u23 by (simp add: field_simps)
  then have "of_int (2 ^ 23) \<le> x / u" by simp
  then have "roundHalfEven (of_int (2 ^ 23)) \<le> roundHalfEven (x / u)"
    by (rule roundHalfEven_mono)
  then have "(2::int) ^ 23 \<le> roundHalfEven (x / u)" by (simp only: roundHalfEven_of_int)
  then have "(of_int (2 ^ 23) :: real) \<le> of_int (roundHalfEven (x / u))"
    by (simp only: of_int_le_iff)
  then have "(2::real) ^ 23 \<le> of_int (roundHalfEven (x / u))" by simp
  then have "2 ^ 23 * u \<le> of_int (roundHalfEven (x / u)) * u"
    using upos by (intro mult_right_mono) simp_all
  then show "2 powr (of_int \<lfloor>log 2 x\<rfloor>) \<le> roundSingle x"
    using u23 by (simp add: r e_def mult.commute)
  have "x / u \<le> 2 ^ 24" using hi upos u24 by (simp add: field_simps)
  then have "x / u \<le> of_int (2 ^ 24)" by simp
  then have "roundHalfEven (x / u) \<le> roundHalfEven (of_int (2 ^ 24))"
    by (rule roundHalfEven_mono)
  then have "roundHalfEven (x / u) \<le> (2::int) ^ 24" by (simp only: roundHalfEven_of_int)
  then have "(of_int (roundHalfEven (x / u)) :: real) \<le> of_int (2 ^ 24)"
    by (simp only: of_int_le_iff)
  then have "of_int (roundHalfEven (x / u)) \<le> (2::real) ^ 24" by simp
  then have "of_int (roundHalfEven (x / u)) * u \<le> 2 ^ 24 * u"
    using upos by (intro mult_right_mono) simp_all
  then show "roundSingle x \<le> 2 powr (of_int \<lfloor>log 2 x\<rfloor> + 1)"
    using u24 by (simp add: r e_def mult.commute)
qed

lemma roundSingle_pos:
  assumes "0 < x"
  shows "0 < roundSingle x"
proof -
  have "(0::real) < 2 powr (of_int \<lfloor>log 2 x\<rfloor>)" by simp
  also have "\<dots> \<le> roundSingle x" using assms by (rule roundSingle_binade(1))
  finally show ?thesis .
qed

lemma roundSingle_mono_pos:
  assumes "0 < x" and "x \<le> y"
  shows "roundSingle x \<le> roundSingle y"
proof -
  have ypos: "0 < y" using assms by simp
  have le: "\<lfloor>log 2 x\<rfloor> \<le> \<lfloor>log 2 y\<rfloor>"
    using assms by (intro floor_mono) simp
  show ?thesis
  proof (cases "\<lfloor>log 2 x\<rfloor> = \<lfloor>log 2 y\<rfloor>")
    case True
    define u :: real where "u = 2 powr (of_int \<lfloor>log 2 y\<rfloor> - 23)"
    have upos: "0 < u" by (simp add: u_def)
    have rx: "roundSingle x = of_int (roundHalfEven (x / u)) * u"
      using assms(1) True by (simp add: roundSingle_def u_def Let_def)
    have ry: "roundSingle y = of_int (roundHalfEven (y / u)) * u"
      using ypos by (simp add: roundSingle_def u_def Let_def)
    have "x / u \<le> y / u" using assms(2) upos by (simp add: divide_right_mono)
    then have "roundHalfEven (x / u) \<le> roundHalfEven (y / u)" by (rule roundHalfEven_mono)
    then have "(of_int (roundHalfEven (x / u)) :: real) \<le> of_int (roundHalfEven (y / u))" by simp
    then show ?thesis unfolding rx ry using upos by (intro mult_right_mono) simp_all
  next
    case False
    with le have "\<lfloor>log 2 x\<rfloor> + 1 \<le> \<lfloor>log 2 y\<rfloor>" by simp
    then have "(of_int \<lfloor>log 2 x\<rfloor> + 1 :: real) \<le> of_int \<lfloor>log 2 y\<rfloor>" by linarith
    then have "(2::real) powr (of_int \<lfloor>log 2 x\<rfloor> + 1) \<le> 2 powr (of_int \<lfloor>log 2 y\<rfloor>)"
      by simp
    with roundSingle_binade(2) [OF assms(1)] roundSingle_binade(1) [OF ypos]
    show ?thesis by linarith
  qed
qed

lemma roundSingle_mono:
  assumes "x \<le> y"
  shows "roundSingle x \<le> roundSingle y"
proof -
  consider "0 < x" | "x = 0" "y = 0" | "x = 0" "0 < y" | "x < 0" "0 \<le> y" | "x < 0" "y < 0"
    using assms by linarith
  then show ?thesis
  proof cases
    case 1
    then show ?thesis using assms by (rule roundSingle_mono_pos)
  next
    case 2
    then show ?thesis by simp
  next
    case 3
    then show ?thesis using roundSingle_pos [of y] by (simp add: roundSingle_def)
  next
    case 4
    have "0 < roundSingle (- x)" using 4 by (intro roundSingle_pos) simp
    then have "roundSingle x < 0" by (simp add: roundSingle_minus)
    moreover have "0 \<le> roundSingle y"
      using 4 roundSingle_pos [of y] by (cases "y = 0") (simp_all add: roundSingle_def less_le)
    ultimately show ?thesis by simp
  next
    case 5
    have "roundSingle (- y) \<le> roundSingle (- x)"
      using 5 assms by (intro roundSingle_mono_pos) simp_all
    then show ?thesis by (simp add: roundSingle_minus)
  qed
qed

lemma roundSingle_0 [simp]: "roundSingle 0 = 0"
  by (simp add: roundSingle_def)

lemma roundSingle_1 [simp]: "roundSingle 1 = 1"
  by (subst roundSingle_eval [of _ 23]) (simp_all add: roundHalfEven_def Let_def)

lemma toFloat_mono: "j \<le> k \<Longrightarrow> toFloat j \<le> toFloat k"
  by (simp add: toFloat_def roundSingle_mono)

lemma toFloat_nonneg: "0 \<le> toFloat k"
  using roundSingle_mono [of 0 "real k"] by (simp add: toFloat_def)

lemma intervalSize_nonneg: "0 \<le> intervalSize n"
proof -
  have "0 \<le> 1 / toFloat (max 1 n)" using toFloat_nonneg by simp
  then show ?thesis
    unfolding intervalSize_def using roundSingle_mono [of 0 "1 / toFloat (max 1 n)"] by simp
qed

lemma depthBound_antimono:
  assumes "j \<le> k"
  shows "depthBound n k \<le> depthBound n j"
proof -
  have "toFloat j * intervalSize n \<le> toFloat k * intervalSize n"
    using assms toFloat_mono intervalSize_nonneg by (intro mult_right_mono)
  then have "roundSingle (toFloat j * intervalSize n) \<le> roundSingle (toFloat k * intervalSize n)"
    by (rule roundSingle_mono)
  then have "1 - roundSingle (toFloat k * intervalSize n) \<le> 1 - roundSingle (toFloat j * intervalSize n)"
    by simp
  then show ?thesis unfolding depthBound_def by (rule roundSingle_mono)
qed

lemma depthBound_0: "depthBound n 0 = 1"
  by (simp add: depthBound_def toFloat_def)

lemma toFloat_values:
  "toFloat 0 = 0" "toFloat 1 = 1" "toFloat 2 = 2" "toFloat 3 = 3" "toFloat 4 = 4" "toFloat 5 = 5"
  "toFloat 40 = 40" "toFloat 41 = 41"
proof -
  show "toFloat 0 = 0" by (simp add: toFloat_def)
  show "toFloat 1 = 1" by (simp add: toFloat_def)
  show "toFloat 2 = 2"
    unfolding toFloat_def by (subst roundSingle_eval [of _ 22]) (simp_all add: roundHalfEven_def Let_def)
  show "toFloat 3 = 3"
    unfolding toFloat_def by (subst roundSingle_eval [of _ 22]) (simp_all add: roundHalfEven_def Let_def)
  show "toFloat 4 = 4"
    unfolding toFloat_def by (subst roundSingle_eval [of _ 21]) (simp_all add: roundHalfEven_def Let_def)
  show "toFloat 5 = 5"
    unfolding toFloat_def by (subst roundSingle_eval [of _ 21]) (simp_all add: roundHalfEven_def Let_def)
  show "toFloat 40 = 40"
    unfolding toFloat_def by (subst roundSingle_eval [of _ 18]) (simp_all add: roundHalfEven_def Let_def)
  show "toFloat 41 = 41"
    unfolding toFloat_def by (subst roundSingle_eval [of _ 18]) (simp_all add: roundHalfEven_def Let_def)
qed

lemma intervalSize_5: "intervalSize 5 = 13421773 / 2 ^ 26"
proof -
  have a: "max 1 (5::nat) = 5" by simp
  have b: "roundSingle (1 / 5) = 13421773 / 2 ^ 26"
    by (subst roundSingle_eval [of _ 26]) (simp_all add: roundHalfEven_def Let_def)
  show ?thesis by (simp only: intervalSize_def a toFloat_values b)
qed

lemma intervalSize_41: "intervalSize 41 = 13094412 / 2 ^ 29"
proof -
  have a: "max 1 (41::nat) = 41" by simp
  have b: "roundSingle (1 / 41) = 13094412 / 2 ^ 29"
    by (subst roundSingle_eval [of _ 29]) (simp_all add: roundHalfEven_def Let_def)
  show ?thesis by (simp only: intervalSize_def a toFloat_values b)
qed

lemma depthBound_5_1: "depthBound 5 1 = 13421773 / 2 ^ 24"
proof -
  have a: "1 * (13421773 / 2 ^ 26) = (1 * 13421773 / 2 ^ 26 :: real)" by simp
  have b: "roundSingle (1 * 13421773 / 2 ^ 26) = 13421773 / 2 ^ 26"
    by (subst roundSingle_eval [of _ 26]) (simp_all add: roundHalfEven_def Let_def)
  have c: "roundSingle (1 - 13421773 / 2 ^ 26) = 13421773 / 2 ^ 24"
    by (subst roundSingle_eval [of _ 24]) (simp_all add: roundHalfEven_def Let_def)
  show ?thesis by (simp only: depthBound_def toFloat_values intervalSize_5 a b c)
qed

lemma depthBound_5_2: "depthBound 5 2 = 10066330 / 2 ^ 24"
proof -
  have a: "2 * (13421773 / 2 ^ 26) = (2 * 13421773 / 2 ^ 26 :: real)" by simp
  have b: "roundSingle (2 * 13421773 / 2 ^ 26) = 13421773 / 2 ^ 25"
    by (subst roundSingle_eval [of _ 25]) (simp_all add: roundHalfEven_def Let_def)
  have c: "roundSingle (1 - 13421773 / 2 ^ 25) = 10066330 / 2 ^ 24"
    by (subst roundSingle_eval [of _ 24]) (simp_all add: roundHalfEven_def Let_def)
  show ?thesis by (simp only: depthBound_def toFloat_values intervalSize_5 a b c)
qed

lemma depthBound_5_3: "depthBound 5 3 = 6710886 / 2 ^ 24"
proof -
  have a: "3 * (13421773 / 2 ^ 26) = (3 * 13421773 / 2 ^ 26 :: real)" by simp
  have b: "roundSingle (3 * 13421773 / 2 ^ 26) = 10066330 / 2 ^ 24"
    by (subst roundSingle_eval [of _ 24]) (simp_all add: roundHalfEven_def Let_def)
  have c: "roundSingle (1 - 10066330 / 2 ^ 24) = 6710886 / 2 ^ 24"
    by (subst roundSingle_eval [of _ 25]) (simp_all add: roundHalfEven_def Let_def)
  show ?thesis by (simp only: depthBound_def toFloat_values intervalSize_5 a b c)
qed

lemma depthBound_5_4: "depthBound 5 4 = 3355443 / 2 ^ 24"
proof -
  have a: "4 * (13421773 / 2 ^ 26) = (4 * 13421773 / 2 ^ 26 :: real)" by simp
  have b: "roundSingle (4 * 13421773 / 2 ^ 26) = 13421773 / 2 ^ 24"
    by (subst roundSingle_eval [of _ 24]) (simp_all add: roundHalfEven_def Let_def)
  have c: "roundSingle (1 - 13421773 / 2 ^ 24) = 3355443 / 2 ^ 24"
    by (subst roundSingle_eval [of _ 26]) (simp_all add: roundHalfEven_def Let_def)
  show ?thesis by (simp only: depthBound_def toFloat_values intervalSize_5 a b c)
qed

lemma depthBound_5_5: "depthBound 5 5 = 0"
proof -
  have a: "5 * (13421773 / 2 ^ 26) = (5 * 13421773 / 2 ^ 26 :: real)" by simp
  have b: "roundSingle (5 * 13421773 / 2 ^ 26) = 1"
    by (subst roundSingle_eval [of _ 23]) (simp_all add: roundHalfEven_def Let_def)
  have c: "roundSingle (1 - 1) = 0" by simp
  show ?thesis by (simp only: depthBound_def toFloat_values intervalSize_5 a b c)
qed

lemma depthBound_41_40: "depthBound 41 40 = 409201 / 2 ^ 24"
proof -
  have a: "40 * (13094412 / 2 ^ 29) = (40 * 13094412 / 2 ^ 29 :: real)" by simp
  have b: "roundSingle (40 * 13094412 / 2 ^ 29) = 16368015 / 2 ^ 24"
    by (subst roundSingle_eval [of _ 24]) (simp_all add: roundHalfEven_def Let_def)
  have c: "roundSingle (1 - 16368015 / 2 ^ 24) = 409201 / 2 ^ 24"
    by (subst roundSingle_eval [of _ 29]) (simp_all add: roundHalfEven_def Let_def)
  show ?thesis by (simp only: depthBound_def toFloat_values intervalSize_41 a b c)
qed

lemma depthBound_41_41: "depthBound 41 41 = 1 / 2 ^ 24"
proof -
  have a: "41 * (13094412 / 2 ^ 29) = (41 * 13094412 / 2 ^ 29 :: real)" by simp
  have b: "roundSingle (41 * 13094412 / 2 ^ 29) = 16777215 / 2 ^ 24"
    by (subst roundSingle_eval [of _ 24]) (simp_all add: roundHalfEven_def Let_def)
  have c: "roundSingle (1 - 16777215 / 2 ^ 24) = 1 / 2 ^ 24"
    by (subst roundSingle_eval [of _ 47]) (simp_all add: roundHalfEven_def Let_def)
  show ?thesis by (simp only: depthBound_def toFloat_values intervalSize_41 a b c)
qed

lemma normalise_significand:
  fixes a :: int
  assumes "0 < a" and "a < 2 ^ 24"
  shows "\<exists>c::nat. 2 ^ 23 \<le> a * 2 ^ c \<and> a * 2 ^ c < 2 ^ 24"
  using assms
proof (induction "nat (2 ^ 24 - a)" arbitrary: a rule: less_induct)
  case less
  show ?case
  proof (cases "2 ^ 23 \<le> a")
    case True
    then have "2 ^ 23 \<le> a * 2 ^ 0 \<and> a * 2 ^ 0 < 2 ^ 24" using less.prems by simp
    then show ?thesis by blast
  next
    case False
    then have "nat (2 ^ 24 - 2 * a) < nat (2 ^ 24 - a)" "0 < 2 * a" "2 * a < 2 ^ 24"
      using less.prems by simp_all
    then obtain c :: nat where "2 ^ 23 \<le> 2 * a * 2 ^ c \<and> 2 * a * 2 ^ c < 2 ^ 24"
      using less.hyps [of "2 * a"] by blast
    then have "2 ^ 23 \<le> a * 2 ^ (Suc c) \<and> a * 2 ^ (Suc c) < 2 ^ 24"
      by (simp add: mult.assoc mult.left_commute)
    then show ?thesis by blast
  qed
qed

lemma roundSingle_exact:
  assumes "x = of_int i / 2 ^ j" and "\<bar>i\<bar> < 2 ^ 24"
  shows "roundSingle x = x"
proof (cases "i = 0")
  case True
  with assms(1) show ?thesis by simp
next
  case False
  then have "0 < \<bar>i\<bar>" by simp
  then obtain c :: nat where c: "2 ^ 23 \<le> \<bar>i\<bar> * 2 ^ c" "\<bar>i\<bar> * 2 ^ c < 2 ^ 24"
    using normalise_significand [of "\<bar>i\<bar>"] assms(2) by blast
  have xs: "x * 2 ^ (j + c) = of_int (i * 2 ^ c)"
    by (simp add: assms(1) power_add)
  then have ax: "\<bar>x\<bar> * 2 ^ (j + c) = of_int (\<bar>i\<bar> * 2 ^ c)"
    by (simp add: assms(1) power_add abs_mult)
  have lo: "2 ^ 23 \<le> \<bar>x\<bar> * 2 ^ (j + c)"
    unfolding ax using c(1) of_int_le_iff [of "2 ^ 23" "\<bar>i\<bar> * 2 ^ c", where ?'a = real] by simp
  have hi: "\<bar>x\<bar> * 2 ^ (j + c) < 2 ^ 24"
    unfolding ax using c(2) of_int_less_iff [of "\<bar>i\<bar> * 2 ^ c" "2 ^ 24", where ?'a = real] by simp
  have "roundSingle x = of_int (roundHalfEven (x * 2 ^ (j + c))) / 2 ^ (j + c)"
    using lo hi by (rule roundSingle_eval)
  also have "\<dots> = of_int (i * 2 ^ c) / 2 ^ (j + c)"
    by (simp only: xs roundHalfEven_of_int)
  also have "\<dots> = x" by (simp add: assms(1) power_add)
  finally show ?thesis .
qed

lemma roundSingle_of_nat: "k < 2 ^ 24 \<Longrightarrow> roundSingle (real k) = real k"
  using roundSingle_exact [of "real k" "int k" 0] by simp

lemma depthBound_power_of_two:
  assumes "n = 2 ^ m" and "m \<le> 23" and "j \<le> n"
  shows "depthBound n j = 1 - real j / real n"
proof -
  have "(2::nat) ^ m \<le> 2 ^ 23" using assms(2) by (intro power_increasing) simp_all
  then have n23: "n \<le> 2 ^ 23" using assms(1) by simp
  then have n24: "n < 2 ^ 24" by simp
  have j24: "j < 2 ^ 24" using assms(3) n24 by simp
  have npos: "max 1 n = n" using assms(1) by (simp add: max_def)
  have tn: "toFloat n = real n" using n24 by (simp add: toFloat_def roundSingle_of_nat)
  have tj: "toFloat j = real j" using j24 by (simp add: toFloat_def roundSingle_of_nat)
  have rn: "real n = 2 ^ m" using assms(1) by simp
  have s: "intervalSize n = 1 / 2 ^ m"
    unfolding intervalSize_def npos tn rn
    using roundSingle_exact [of "1 / 2 ^ m" 1 m] by simp
  have "int j < 2 ^ 24" using j24 by simp
  then have p: "roundSingle (real j * (1 / 2 ^ m)) = real j / 2 ^ m"
    using roundSingle_exact [of "real j * (1 / 2 ^ m)" "int j" m] by simp
  have jn: "int j \<le> 2 ^ m" using assms(1,3) by simp
  have d: "1 - real j / 2 ^ m = of_int (2 ^ m - int j) / 2 ^ m"
    by (simp add: field_simps)
  have "\<bar>2 ^ m - int j\<bar> \<le> 2 ^ m" using jn by simp
  moreover have "(2::int) ^ m < 2 ^ 24" using assms(2) by (intro power_strict_increasing) simp_all
  ultimately have "\<bar>2 ^ m - int j\<bar> < 2 ^ 24" by linarith
  then have q: "roundSingle (1 - real j / 2 ^ m) = 1 - real j / 2 ^ m"
    using roundSingle_exact [of "1 - real j / 2 ^ m" "2 ^ m - int j" m] d by simp
  show ?thesis
    unfolding depthBound_def tj s p q rn ..
qed

lemma twoTouchingBodies_partitions:
  "depthPartitions (partitionDepth twoTouchingBodies [] []) =
     [\<lparr>index = 0, nearZ = - 4, farZ = - (101 / 25)\<rparr>,
      \<lparr>index = 1, nearZ = - 2, farZ = - 4\<rparr>,
      \<lparr>index = 2, nearZ = - 1, farZ = - 2\<rparr>,
      \<lparr>index = 3, nearZ = - (1 / 100), farZ = - 1\<rparr>]"
  by (simp add: partition_defs twoTouchingBodies_def Let_def)

text \<open>
  Claim C7, amended. \<open>draw\<close> always produces \<open>n \<ge> 1\<close> intervals, and interval \<open>k\<close> receives
  the depth range whose bounds are \<open>1 - (k + 1) * s\<close> and \<open>1 - k * s\<close> with \<open>s = 1 / n\<close>, where
  the conversions of \<open>k + 1\<close>, \<open>k\<close> and \<open>n\<close> to single precision, the division, the
  multiplication and the subtraction are each rounded to single precision. The two bounds
  are within \<open>2\<^sup>-\<^sup>2\<^sup>1\<close> of \<open>1 - (k + 1) / n\<close> and of \<open>1 - k / n\<close>, so the slice has size \<open>1 / n\<close>
  up to \<open>2\<^sup>-\<^sup>2\<^sup>0\<close>, and its lower bound is not above its upper bound. The slices follow each
  other from far to near: the slice of an interval starts exactly where the slice of the
  next interval ends. Interval 0, the first constructed, receives a range that ends at
  exactly 1 and starts within \<open>2\<^sup>-\<^sup>2\<^sup>1\<close> of \<open>1 - 1 / n\<close>; the last constructed receives a range
  that starts within \<open>2\<^sup>-\<^sup>2\<^sup>1\<close> of 0 and ends within \<open>2\<^sup>-\<^sup>2\<^sup>1\<close> of \<open>1 / n\<close>. When \<open>n\<close> is a power
  of two, up to \<open>2\<^sup>2\<^sup>3\<close>, no operation rounds: every slice has size exactly \<open>1 / n\<close>, interval
  0 receives \<open>[1 - 1 / n, 1]\<close> and the last interval receives \<open>[0, 1 / n]\<close>. The witness is a
  scene of two bodies that touch in depth, which has four intervals.
\<close>

theorem depth_range_allocation:
  assumes "n = length (depthPartitions (partitionDepth renderList orbitPathList annotations))"
    and "rs = depthRanges renderList orbitPathList annotations"
    and "k < n"
  shows "1 \<le> n \<and> length rs = n \<and>
         rs ! k = (roundSingle (1 - roundSingle (toFloat (k + 1) * intervalSize n)),
                   roundSingle (1 - roundSingle (toFloat k * intervalSize n))) \<and>
         \<bar>fst (rs ! k) - (1 - real (k + 1) / real n)\<bar> \<le> 1 / 2 ^ 21 \<and>
         \<bar>snd (rs ! k) - (1 - real k / real n)\<bar> \<le> 1 / 2 ^ 21 \<and>
         \<bar>snd (rs ! k) - fst (rs ! k) - 1 / real n\<bar> \<le> 1 / 2 ^ 20 \<and>
         fst (rs ! k) \<le> snd (rs ! k) \<and>
         (k + 1 < n \<longrightarrow> fst (rs ! k) = snd (rs ! (k + 1))) \<and>
         snd (rs ! 0) = 1 \<and>
         \<bar>fst (rs ! 0) - (1 - 1 / real n)\<bar> \<le> 1 / 2 ^ 21 \<and>
         \<bar>fst (rs ! (n - 1))\<bar> \<le> 1 / 2 ^ 21 \<and>
         \<bar>snd (rs ! (n - 1)) - 1 / real n\<bar> \<le> 1 / 2 ^ 21 \<and>
         (n = 2 ^ m \<and> m \<le> 23 \<longrightarrow>
            rs ! k = (1 - real (k + 1) / real n, 1 - real k / real n) \<and>
            snd (rs ! k) - fst (rs ! k) = 1 / real n \<and>
            rs ! 0 = (1 - 1 / real n, 1) \<and>
            rs ! (n - 1) = (0, 1 / real n))"
proof -
  have n: "nIntervals (partitionDepth renderList orbitPathList annotations) = n"
    and pos: "1 \<le> n"
    using assms(1) nIntervals_partitionDepth [of renderList orbitPathList annotations]
    by simp_all
  have rs: "rs = map (depthRange n) [0..<n]"
    using assms(2) n by (simp add: depthRanges_def Let_def)
  have len: "length rs = n" by (simp add: rs)
  have rk: "rs ! k = (depthBound n (k + 1), depthBound n k)"
    using assms(3) by (simp add: rs depthRange_def)
  have r0: "rs ! 0 = (depthBound n (0 + 1), depthBound n 0)"
    using pos by (simp add: rs depthRange_def)
  have rl: "rs ! (n - 1) = (depthBound n (n - 1 + 1), depthBound n (n - 1))"
    using pos by (simp add: rs depthRange_def)
  have nn: "n - 1 + 1 = n" using pos by simp
  have ek1: "\<bar>depthBound n (k + 1) - (1 - real (k + 1) / real n)\<bar> \<le> 1 / 2 ^ 21"
    using assms(3) pos by (intro depthBound_error) simp_all
  have ek: "\<bar>depthBound n k - (1 - real k / real n)\<bar> \<le> 1 / 2 ^ 21"
    using assms(3) pos by (intro depthBound_error) simp_all
  have d: "(1 - real k / real n) - (1 - real (k + 1) / real n) = 1 / real n"
    using pos by (simp add: field_simps)
  have g: "\<bar>a - A\<bar> \<le> e \<Longrightarrow> \<bar>b - B\<bar> \<le> e \<Longrightarrow> A - B = c \<Longrightarrow> \<bar>a - b - c\<bar> \<le> 2 * e"
    for a A b B c e :: real
    by linarith
  have size: "\<bar>depthBound n k - depthBound n (k + 1) - 1 / real n\<bar> \<le> 1 / 2 ^ 20"
    using g [OF ek ek1 d] by simp
  have ord: "depthBound n (k + 1) \<le> depthBound n k"
    by (rule depthBound_antimono) simp
  have adj: "k + 1 < n \<longrightarrow> fst (rs ! k) = snd (rs ! (k + 1))"
    by (simp add: rs depthRange_def)
  have e1: "\<bar>depthBound n (0 + 1) - (1 - 1 / real n)\<bar> \<le> 1 / 2 ^ 21"
    using depthBound_error [of n "0 + 1"] pos by simp
  have "\<bar>depthBound n n - (1 - real n / real n)\<bar> \<le> 1 / 2 ^ 21"
    using pos by (intro depthBound_error) simp_all
  then have en: "\<bar>depthBound n n\<bar> \<le> 1 / 2 ^ 21" using pos by simp
  have "\<bar>depthBound n (n - 1) - (1 - real (n - 1) / real n)\<bar> \<le> 1 / 2 ^ 21"
    using pos by (intro depthBound_error) simp_all
  moreover have l1: "1 - real (n - 1) / real n = 1 / real n"
    using pos by (simp add: field_simps of_nat_diff)
  ultimately have en1: "\<bar>depthBound n (n - 1) - 1 / real n\<bar> \<le> 1 / 2 ^ 21" by simp
  have def: "rs ! k = (roundSingle (1 - roundSingle (toFloat (k + 1) * intervalSize n)),
                       roundSingle (1 - roundSingle (toFloat k * intervalSize n)))"
    unfolding rk depthBound_def ..
  have exact: "n = 2 ^ m \<and> m \<le> 23 \<longrightarrow>
            rs ! k = (1 - real (k + 1) / real n, 1 - real k / real n) \<and>
            snd (rs ! k) - fst (rs ! k) = 1 / real n \<and>
            rs ! 0 = (1 - 1 / real n, 1) \<and>
            rs ! (n - 1) = (0, 1 / real n)"
  proof (intro impI)
    assume p: "n = 2 ^ m \<and> m \<le> 23"
    have b: "depthBound n j = 1 - real j / real n" if "j \<le> n" for j
      using p that by (intro depthBound_power_of_two [of n m j]) simp_all
    have bk: "depthBound n k = 1 - real k / real n" using assms(3) by (intro b) simp
    have bk1: "depthBound n (k + 1) = 1 - real (k + 1) / real n" using assms(3) by (intro b) simp
    have b1: "depthBound n (0 + 1) = 1 - 1 / real n" using b [of "0 + 1"] pos by simp
    have bn: "depthBound n n = 0" using b [of n] pos by simp
    have bn1: "depthBound n (n - 1) = 1 / real n" using b [of "n - 1"] l1 by simp
    have "rs ! k = (1 - real (k + 1) / real n, 1 - real k / real n)"
      unfolding rk bk bk1 ..
    moreover have "snd (rs ! k) - fst (rs ! k) = 1 / real n"
      unfolding rk bk bk1 fst_conv snd_conv by (rule d)
    moreover have "rs ! 0 = (1 - 1 / real n, 1)"
      unfolding r0 b1 depthBound_0 ..
    moreover have "rs ! (n - 1) = (0, 1 / real n)"
      unfolding rl nn bn bn1 ..
    ultimately show "rs ! k = (1 - real (k + 1) / real n, 1 - real k / real n) \<and>
            snd (rs ! k) - fst (rs ! k) = 1 / real n \<and>
            rs ! 0 = (1 - 1 / real n, 1) \<and>
            rs ! (n - 1) = (0, 1 / real n)"
      by blast
  qed
  have "\<bar>fst (rs ! k) - (1 - real (k + 1) / real n)\<bar> \<le> 1 / 2 ^ 21"
    unfolding rk fst_conv by (rule ek1)
  moreover have "\<bar>snd (rs ! k) - (1 - real k / real n)\<bar> \<le> 1 / 2 ^ 21"
    unfolding rk snd_conv by (rule ek)
  moreover have "\<bar>snd (rs ! k) - fst (rs ! k) - 1 / real n\<bar> \<le> 1 / 2 ^ 20"
    unfolding rk fst_conv snd_conv by (rule size)
  moreover have "fst (rs ! k) \<le> snd (rs ! k)"
    unfolding rk fst_conv snd_conv by (rule ord)
  moreover have "snd (rs ! 0) = 1"
    unfolding r0 snd_conv by (rule depthBound_0)
  moreover have "\<bar>fst (rs ! 0) - (1 - 1 / real n)\<bar> \<le> 1 / 2 ^ 21"
    unfolding r0 fst_conv by (rule e1)
  moreover have "\<bar>fst (rs ! (n - 1))\<bar> \<le> 1 / 2 ^ 21"
    unfolding rl fst_conv nn by (rule en)
  moreover have "\<bar>snd (rs ! (n - 1)) - 1 / real n\<bar> \<le> 1 / 2 ^ 21"
    unfolding rl snd_conv by (rule en1)
  ultimately show ?thesis using pos len def adj exact by blast
qed


lemma exampleRenderList_ranges:
  "depthRanges exampleRenderList [] [] =
     [(13421773 / 2 ^ 24, 1),
      (10066330 / 2 ^ 24, 13421773 / 2 ^ 24),
      (6710886 / 2 ^ 24, 10066330 / 2 ^ 24),
      (3355443 / 2 ^ 24, 6710886 / 2 ^ 24),
      (0, 3355443 / 2 ^ 24)]"
proof -
  have n: "nIntervals (partitionDepth exampleRenderList [] []) = 5"
    by (simp add: nIntervals_partitionDepth exampleRenderList_partitions)
  have u: "[0..<5] = [0, 1, 2, 3, 4::nat]"
    by (simp add: upt_rec)
  have a: "(0::nat) + 1 = 1" "(1::nat) + 1 = 2" "(2::nat) + 1 = 3" "(3::nat) + 1 = 4"
    "(4::nat) + 1 = 5"
    by simp_all
  show ?thesis
    by (simp only: depthRanges_def Let_def n u list.map depthRange_def a depthBound_0
        depthBound_5_1 depthBound_5_2 depthBound_5_3 depthBound_5_4 depthBound_5_5)
qed

lemma twoTouchingBodies_ranges:
  "depthRanges twoTouchingBodies [] [] = [(3 / 4, 1), (1 / 2, 3 / 4), (1 / 4, 1 / 2), (0, 1 / 4)]"
proof -
  have n: "nIntervals (partitionDepth twoTouchingBodies [] []) = 4"
    by (simp add: nIntervals_partitionDepth twoTouchingBodies_partitions)
  have u: "[0..<4] = [0, 1, 2, 3::nat]"
    by (simp add: upt_rec)
  have a: "(0::nat) + 1 = 1" "(1::nat) + 1 = 2" "(2::nat) + 1 = 3" "(3::nat) + 1 = 4"
    by simp_all
  have p: "(4::nat) = 2 ^ 2" "(2::nat) \<le> 23" by simp_all
  have b: "depthBound 4 1 = 3 / 4" "depthBound 4 2 = 1 / 2" "depthBound 4 3 = 1 / 4"
    "depthBound 4 4 = 0"
    using depthBound_power_of_two [OF p, of 1] depthBound_power_of_two [OF p, of 2]
      depthBound_power_of_two [OF p, of 3] depthBound_power_of_two [OF p, of 4]
    by simp_all
  show ?thesis
    by (simp only: depthRanges_def Let_def n u list.map depthRange_def a depthBound_0 b)
qed

theorem depth_range_allocation_witness:
  "(4::nat) = length (depthPartitions (partitionDepth twoTouchingBodies [] [])) \<and>
   (2::nat) < 4 \<and> (4::nat) = 2 ^ 2 \<and> (2::nat) \<le> 23 \<and>
   length (depthRanges twoTouchingBodies [] []) = 4 \<and>
   depthRanges twoTouchingBodies [] [] ! 2 = (1 / 4, 1 / 2) \<and>
   snd (depthRanges twoTouchingBodies [] [] ! 2)
     - fst (depthRanges twoTouchingBodies [] [] ! 2) = 1 / 4 \<and>
   fst (depthRanges twoTouchingBodies [] [] ! 2) = snd (depthRanges twoTouchingBodies [] [] ! 3) \<and>
   depthRanges twoTouchingBodies [] [] ! 0 = (1 - 1 / 4, 1) \<and>
   depthRanges twoTouchingBodies [] [] ! 3 = (0, 1 / 4)"
proof -
  have l: "4 = length (depthPartitions (partitionDepth twoTouchingBodies [] []))"
    by (simp add: twoTouchingBodies_partitions)
  have k: "(2::nat) < 4" by simp
  show ?thesis
    using depth_range_allocation [OF l refl k, of 2] l by (simp add: twoTouchingBodies_ranges)
qed

text \<open>
  Claim C7 as stated fails: the bounds are computed in single precision, in which \<open>1 / n\<close>
  is exact only when \<open>n\<close> is a power of two. With the five intervals of the example scene
  no slice has size \<open>1 / 5\<close>, the slice of interval 2 is larger than that of interval 1,
  interval 0 does not start at \<open>1 - 1 / 5\<close> and the last interval does not end at \<open>1 / 5\<close>;
  with 41 intervals the slice of the last interval starts at \<open>2\<^sup>-\<^sup>2\<^sup>4\<close>, not at 0.
\<close>

theorem depth_range_exact_counterexample:
  "length (depthPartitions (partitionDepth exampleRenderList [] [])) = 5 \<and>
   depthRanges exampleRenderList [] [] =
     [(13421773 / 2 ^ 24, 1),
      (10066330 / 2 ^ 24, 13421773 / 2 ^ 24),
      (6710886 / 2 ^ 24, 10066330 / 2 ^ 24),
      (3355443 / 2 ^ 24, 6710886 / 2 ^ 24),
      (0, 3355443 / 2 ^ 24)] \<and>
   depthRanges exampleRenderList [] [] ! 0 \<noteq> (1 - 1 / 5, 1) \<and>
   depthRanges exampleRenderList [] [] ! 4 \<noteq> (0, 1 / 5) \<and>
   snd (depthRanges exampleRenderList [] [] ! 2)
     - fst (depthRanges exampleRenderList [] [] ! 2) \<noteq> 1 / 5 \<and>
   snd (depthRanges exampleRenderList [] [] ! 1) - fst (depthRanges exampleRenderList [] [] ! 1)
     < snd (depthRanges exampleRenderList [] [] ! 2) - fst (depthRanges exampleRenderList [] [] ! 2) \<and>
   depthRange 41 40 = (1 / 2 ^ 24, 409201 / 2 ^ 24) \<and>
   depthRange 41 40 \<noteq> (0, 1 / 41)"
proof -
  have a: "(40::nat) + 1 = 41" by simp
  have b: "depthRange 41 40 = (1 / 2 ^ 24, 409201 / 2 ^ 24)"
    by (simp only: depthRange_def a depthBound_41_40 depthBound_41_41)
  have c: "length (depthPartitions (partitionDepth exampleRenderList [] [])) = 5"
    by (simp add: exampleRenderList_partitions)
  show ?thesis
    by (simp only: b c exampleRenderList_ranges) simp
qed














section \<open>Verification of the subtree culling\<close>

lemmas subtree_defs =
  traverseSubtree_def bestCaseVisible_def brightestPossible_def largestPossible_def
  minPossibleDistance_def mayPlanetshine_def

text \<open>
  Claim C5 as stated fails: a subtree without secondary illuminators whose bounding sphere
  passes the frustum test is skipped when its best-case object is too faint and too small.
\<close>

theorem subtree_in_frustum_skipped_counterexample:
  "\<not> traverseSubtree exampleView faintMoonSystem \<and> frustumTest faintMoonSystem \<noteq> Outside"
  by (simp add: subtree_defs exampleView_def faintMoonSystem_def)

text \<open>
  Claim C5, amended. Recursion into the subtree happens whenever the best-case object
  passes the magnitude or the one-pixel threshold and the bounding sphere passes the
  frustum test, and whenever the planetshine test passes (the subtree contains secondary
  illuminators, its best-case size exceeds a tenth of a pixel and its influence sphere
  meets the view cone). A subtree without secondary illuminators is traversed only if both
  the visibility and the frustum test pass. When all three tests fail the subtree is
  skipped.
\<close>

theorem subtree_traversal_rule:
  "(bestCaseVisible r t \<and> frustumTest t \<noteq> Outside \<longrightarrow> traverseSubtree r t) \<and>
   (mayPlanetshine r t \<longrightarrow> traverseSubtree r t) \<and>
   (\<not> containsSecondaryIlluminators t \<longrightarrow>
      (traverseSubtree r t \<longleftrightarrow> bestCaseVisible r t \<and> frustumTest t \<noteq> Outside)) \<and>
   (\<not> bestCaseVisible r t \<and> frustumTest t = Outside \<and> \<not> mayPlanetshine r t
      \<longrightarrow> \<not> traverseSubtree r t)"
  by (auto simp: traverseSubtree_def mayPlanetshine_def Let_def)

lemma sinViewAngle_exampleView: "sinViewAngle exampleView = 3 / 5"
proof -
  have "sqrt (9 / 25) = 3 / 5"
    by (rule real_sqrt_unique) (simp_all add: power2_eq_square)
  then show ?thesis
    by (simp add: sinViewAngle_def exampleView_def power2_eq_square)
qed

lemma reflectingSystem_mayPlanetshine: "mayPlanetshine exampleView reflectingSystem"
  by (simp add: mayPlanetshine_def largestPossible_def minPossibleDistance_def
      insideInfluenceCone_def subtreeInfluenceRadius_def sinViewAngle_exampleView
      invCosViewAngle_def PLANETSHINE_PIXEL_SIZE_LIMIT_def PLANETSHINE_DISTANCE_LIMIT_FACTOR_def
      Let_def)
     (simp add: reflectingSystem_def exampleView_def)

theorem subtree_traversal_rule_witness:
  "bestCaseVisible exampleView brightMoonSystem \<and> frustumTest brightMoonSystem \<noteq> Outside \<and>
   traverseSubtree exampleView brightMoonSystem \<and>
   mayPlanetshine exampleView reflectingSystem \<and> frustumTest reflectingSystem = Outside \<and>
   traverseSubtree exampleView reflectingSystem \<and>
   \<not> containsSecondaryIlluminators faintMoonSystem \<and>
   \<not> bestCaseVisible exampleView faintMoonSystem \<and>
   \<not> traverseSubtree exampleView faintMoonSystem"
  using subtree_traversal_rule [of exampleView brightMoonSystem]
    subtree_traversal_rule [of exampleView faintMoonSystem]
    subtree_traversal_rule [of exampleView reflectingSystem]
    reflectingSystem_mayPlanetshine
  by (simp add: subtree_defs exampleView_def faintMoonSystem_def brightMoonSystem_def)
     (simp add: reflectingSystem_def)

section \<open>Verification of the eclipse test\<close>

lemma sqrt100: "sqrt 100 = 10"
  by (rule real_sqrt_unique) simp_all

lemma ex_dist: "distToCaster planet smallMoon 0 = 9"
  by (simp add: distToCaster_def planet_def smallMoon_def norm3_def squaredNorm_def sqrt100)

lemma ex_occ: "appOccluderRadius planet smallMoon 0 = 1 / 1000"
  by (simp add: appOccluderRadius_def ex_dist) (simp add: smallMoon_def)

lemma ex_axis: "shadowAxisDistance pointRayDistance planet smallMoon (lights sunlight ! 0) 0 = 0"
  by (simp add: shadowAxisDistance_def pointRayDistance_def lightToCasterDir_def sunlight_def
      planet_def smallMoon_def squaredNorm_def norm3_def Let_def)

lemma ex_shadowRadius: "shadowRadius planet smallMoon (lights sunlight ! 0) 0 = 189 / 1000"
  by (simp add: shadowRadius_def ex_occ) (simp add: sunlight_def smallMoon_def)

lemma ex_inside: "insideShadowVolume pointRayDistance planet smallMoon (lights sunlight ! 0) 0"
  by (simp add: insideShadowVolume_def ex_axis ex_shadowRadius Let_def)
     (simp add: lightToCasterDir_def receiverToCasterDir_def sunlight_def planet_def smallMoon_def)

lemma ex_maxDepth: "maxDepth (eclipseShadow planet smallMoon (lights sunlight ! 0) 0) = 1 / 400"
  by (simp add: eclipseShadow_def ex_occ Let_def) (simp add: sunlight_def power2_eq_square)

lemma ex_relevant: "occluderRelevant planet smallMoon 0"
  by (simp add: occluderRelevant_def planet_def smallMoon_def MinRelativeOccluderRadius_def)

lemma ex_test: "testEclipse pointRayDistance planet smallMoon sunlight 0 0 = Some (True, sunlight)"
  using ex_relevant ex_inside
  by (simp add: testEclipse_def ex_dist ex_occ ex_maxDepth Let_def ringShadowOf_def)
     (simp add: sunlight_def smallMoon_def)

lemma shadows_ringShadowOf [simp]:
  "shadows (ringShadowOf distance receiver caster light lightIndex now ls) = shadows ls"
  by (simp add: ringShadowOf_def Let_def split: option.splits)

text \<open>
  Claim C6. For a light index inside the arrays of the lighting state, \<open>testEclipse\<close>
  returns false and leaves the lighting state (the eclipse shadow lists and the ring
  shadows) unchanged unless the caster's radius is at least the receiver's radius times
  0.005, the caster has visible geometry, the caster exists at the given time and the
  caster is an ellipsoid.
\<close>

theorem eclipse_preconditions:
  assumes "lightIndex < length (lights lightingState)"
    and "lightIndex < length (shadows lightingState)"
    and "lightIndex < length (ringShadows lightingState)"
    and "\<not> (getRadius caster \<ge> getRadius receiver * (5 / 1000) \<and>
            hasVisibleGeometry caster \<and> extant caster now \<and> isEllipsoid caster)"
  shows "testEclipse distance receiver caster lightingState lightIndex now
           = Some (False, lightingState)"
proof -
  have "\<not> occluderRelevant receiver caster now"
    using assms(4) by (simp add: occluderRelevant_def MinRelativeOccluderRadius_def)
  then show ?thesis
    using assms(1,2,3) by (simp add: testEclipse_def)
qed

theorem eclipse_preconditions_witness:
  "(0::nat) < length (lights sunlight) \<and> 0 < length (shadows sunlight) \<and>
   0 < length (ringShadows sunlight) \<and> \<not> isEllipsoid irregularMoon \<and>
   testEclipse pointRayDistance planet irregularMoon sunlight 0 0 = Some (False, sunlight)"
  using eclipse_preconditions [where lightIndex = 0 and lightingState = sunlight and caster = irregularMoon
        and receiver = planet and now = 0 and distance = pointRayDistance]
  by (simp add: sunlight_def irregularMoon_def)

text \<open>
  Claim C10. When the preconditions hold and the receiver lies inside the shadow volume
  of the caster (within the shadow cylinder, and behind the caster as seen from the
  light), \<open>testEclipse\<close> returns true; the shadow descriptor is appended to the list of
  the light only if its maximum depth exceeds 1/256. So a true result does not imply that
  a shadow was recorded: with a maximum depth of at most 1/256 the result is true and the
  shadow lists are unchanged. The witness is a small moon in transit, with maximum depth
  1/400.
\<close>

theorem eclipse_result_without_shadow:
  assumes "lightIndex < length (lights lightingState)"
    and "lightIndex < length (shadows lightingState)"
    and "lightIndex < length (ringShadows lightingState)"
    and "light = lights lightingState ! lightIndex"
    and "occluderRelevant receiver caster now"
    and "insideShadowVolume distance receiver caster light now"
    and "distToCaster receiver caster now \<noteq> 0"
    and "appOccluderRadius receiver caster now \<noteq> 0"
    and "apparentSize light \<noteq> 0"
    and "shadow = eclipseShadow receiver caster light now"
    and "result = testEclipse distance receiver caster lightingState lightIndex now"
  shows "map_option fst result = Some True \<and>
         map_option (shadows \<circ> snd) result =
           Some (if maxDepth shadow > 1 / 256
                 then (shadows lightingState)
                        [lightIndex := shadows lightingState ! lightIndex @ [shadow]]
                 else shadows lightingState) \<and>
         (maxDepth shadow \<le> 1 / 256 \<longrightarrow>
            map_option (shadows \<circ> snd) result = Some (shadows lightingState))"
  using assms by (simp add: testEclipse_def Let_def)

theorem eclipse_result_without_shadow_witness:
  "occluderRelevant planet smallMoon 0 \<and>
   insideShadowVolume pointRayDistance planet smallMoon (lights sunlight ! 0) 0 \<and>
   maxDepth (eclipseShadow planet smallMoon (lights sunlight ! 0) 0) = 1 / 400 \<and>
   testEclipse pointRayDistance planet smallMoon sunlight 0 0 = Some (True, sunlight) \<and>
   map_option (shadows \<circ> snd) (testEclipse pointRayDistance planet smallMoon sunlight 0 0)
     = Some (shadows sunlight)"
proof -
  have i: "0 < length (lights sunlight)" "0 < length (shadows sunlight)"
    "0 < length (ringShadows sunlight)"
    by (simp_all add: sunlight_def)
  have nz: "distToCaster planet smallMoon 0 \<noteq> 0" "appOccluderRadius planet smallMoon 0 \<noteq> 0"
    "apparentSize (lights sunlight ! 0) \<noteq> 0"
    by (simp_all add: ex_dist ex_occ) (simp add: sunlight_def)
  show ?thesis
    using eclipse_result_without_shadow [OF i refl ex_relevant ex_inside nz refl refl] ex_relevant ex_inside
    by (simp add: ex_maxDepth ex_test)
qed

section \<open>Verification of the orbit cache eviction\<close>

lemma lastUsed_addSample [simp]: "lastUsed (addSample x plot) = lastUsed plot"
  by (simp add: addSample_def)

lemma lastUsed_fold_addSample [simp]: "lastUsed (fold addSample xs plot) = lastUsed plot"
  by (induction xs arbitrary: plot) simp_all

lemma lastUsed_updateWindow [simp]: "lastUsed (updateWindow opts orbit t plot) = lastUsed plot"
  by (simp add: updateWindow_def slideBackward_def slideForward_def insertForward_def
      insertBackward_def removeSamplesBefore_def removeSamplesAfter_def Let_def)

lemma lastUsed_finishOrbit [simp]: "lastUsed (finishOrbit opts orbit t plot) = lastUsed plot"
  by (simp add: finishOrbit_def)

lemma lastUsed_newCachedOrbit [simp]: "lastUsed (newCachedOrbit r orbit t) = frameCount r"
  by (simp add: newCachedOrbit_def insertForward_def Let_def)

lemma frameCount_cullOrbitCache [simp]: "frameCount (cullOrbitCache r) = frameCount r"
  by (simp add: cullOrbitCache_def)

lemma shaderAvailable_cullOrbitCache [simp]:
  "shaderAvailable (cullOrbitCache r) = shaderAvailable r"
  by (simp add: cullOrbitCache_def)

lemma frameCount_renderOrbit [simp]: "frameCount (renderOrbit opts key orbit t r) = frameCount r"
  by (simp add: renderOrbit_def Let_def split: option.splits)

lemma shaderAvailable_renderOrbit [simp]:
  "shaderAvailable (renderOrbit opts key orbit t r) = shaderAvailable r"
  by (simp add: renderOrbit_def Let_def split: option.splits)

lemma flushed_cullOrbitCache:
  "lastOrbitCacheFlush r = frameCount r \<Longrightarrow> cullOrbitCache r = r"
  by (simp add: cullOrbitCache_def)

lemma flushed_renderOrbit:
  "lastOrbitCacheFlush r = frameCount r \<Longrightarrow>
   lastOrbitCacheFlush (renderOrbit opts key orbit t r) = frameCount r"
  by (simp add: renderOrbit_def Let_def flushed_cullOrbitCache split: option.splits)

lemma scanRuns_flushes:
  "scanRuns key r \<Longrightarrow> lastOrbitCacheFlush (renderOrbit opts key orbit t r) = frameCount r"
  by (simp add: scanRuns_def scanDue_def renderOrbit_def cullOrbitCache_def Let_def)

lemma scanCount_flushed:
  "lastOrbitCacheFlush r = frameCount r \<Longrightarrow> scanCount opts reqs r = 0"
proof (induction reqs arbitrary: r)
  case Nil
  then show ?case by simp
next
  case (Cons req reqs)
  obtain key orbit t where req: "req = (key, orbit, t)" by (cases req)
  have "\<not> scanRuns key r" using Cons.prems by (simp add: scanRuns_def scanDue_def)
  moreover have "scanCount opts reqs (renderOrbit opts key orbit t r) = 0"
    using Cons.prems by (intro Cons.IH) (simp add: flushed_renderOrbit)
  ultimately show ?case by (simp add: req)
qed

lemma scanCount_le_1: "scanCount opts reqs r \<le> 1"
proof (induction reqs arbitrary: r)
  case Nil
  then show ?case by simp
next
  case (Cons req reqs)
  obtain key orbit t where req: "req = (key, orbit, t)" by (cases req)
  show ?case
  proof (cases "scanRuns key r")
    case True
    then have "scanCount opts reqs (renderOrbit opts key orbit t r) = 0"
      by (intro scanCount_flushed) (simp add: scanRuns_flushes)
    with True show ?thesis by (simp add: req)
  next
    case False
    with Cons.IH [of "renderOrbit opts key orbit t r"] show ?thesis by (simp add: req)
  qed
qed

lemma keys_cullOrbitCache:
  assumes "(k, plot) \<in> set (orbitCache r)" and "k \<notin> fst ` set (orbitCache (cullOrbitCache r))"
  shows "scanDue r \<and> retired r plot"
proof (cases "scanDue r")
  case True
  then have c: "orbitCache (cullOrbitCache r) = filter (\<lambda>(k, plot). \<not> retired r plot) (orbitCache r)"
    by (simp add: cullOrbitCache_def scanDue_def)
  have "retired r plot"
  proof (rule ccontr)
    assume "\<not> retired r plot"
    with assms(1) have "(k, plot) \<in> set (orbitCache (cullOrbitCache r))" by (simp add: c)
    then have "k \<in> fst ` set (orbitCache (cullOrbitCache r))" by force
    with assms(2) show False by simp
  qed
  with True show ?thesis by simp
next
  case False
  then have "cullOrbitCache r = r" by (auto simp: cullOrbitCache_def scanDue_def)
  with assms have False by force
  then show ?thesis ..
qed

lemma removed_entry:
  assumes "(k, plot) \<in> set (orbitCache r)"
    and "k \<notin> fst ` set (orbitCache (renderOrbit opts key orbit t r))"
  shows "scanRuns key r \<and> retired r plot"
proof (cases "shaderAvailable r")
  case False
  with assms have False by (force simp: renderOrbit_def)
  then show ?thesis ..
next
  case True
  show ?thesis
  proof (cases "map_of (orbitCache r) key")
    case None
    with True assms(2) have "k \<notin> fst ` set (orbitCache (cullOrbitCache r))"
      by (simp add: renderOrbit_def Let_def dom_update)
    with assms(1) have "scanDue r \<and> retired r plot" by (rule keys_cullOrbitCache)
    with None True show ?thesis by (simp add: scanRuns_def)
  next
    case (Some cached)
    with True assms(2) have "k \<notin> fst ` set (orbitCache r)"
      by (simp add: renderOrbit_def Let_def dom_update)
    with assms(1) have False by force
    then show ?thesis ..
  qed
qed

lemma set_update_subset: "set (AList.update k v al) \<subseteq> insert (k, v) (set al)"
  by (induction al) auto

lemma length_update_new: "k \<notin> fst ` set al \<Longrightarrow> length (AList.update k v al) = Suc (length al)"
  by (induction al) auto

lemma after_scan:
  assumes "scanRuns key r" and "r' = renderOrbit opts key orbit t r"
  shows "list_all (\<lambda>(k, plot). \<not> retired r' plot) (orbitCache r')"
    and "length (orbitCache r') =
           length (filter (\<lambda>(k, plot). \<not> retired r plot) (orbitCache r)) + 1"
proof -
  let ?kept = "filter (\<lambda>(k, plot). \<not> retired r plot) (orbitCache r)"
  let ?new = "finishOrbit opts orbit t (newCachedOrbit r orbit t)"
  have cull: "orbitCache (cullOrbitCache r) = ?kept"
    using assms(1) by (simp add: scanRuns_def scanDue_def cullOrbitCache_def)
  have r': "orbitCache r' = AList.update key ?new ?kept"
    using assms by (simp add: scanRuns_def renderOrbit_def Let_def cull)
  have fc: "frameCount r' = frameCount r" using assms(2) by simp
  have new: "\<not> retired r' ?new"
    by (simp add: retired_def fc OrbitCacheRetireAge_def)
  have "\<forall>(k, plot) \<in> set (orbitCache r'). \<not> retired r' plot"
  proof (clarify)
    fix k plot assume in': "(k, plot) \<in> set (orbitCache r')" and ret: "retired r' plot"
    from in' have "(k, plot) = (key, ?new) \<or> (k, plot) \<in> set ?kept"
      using set_update_subset [of key ?new ?kept] by (auto simp: r')
    then show False
    proof
      assume "(k, plot) = (key, ?new)"
      with new ret show False by simp
    next
      assume "(k, plot) \<in> set ?kept"
      then have "\<not> retired r plot" by simp
      with ret show False by (simp add: retired_def fc)
    qed
  qed
  then show "list_all (\<lambda>(k, plot). \<not> retired r' plot) (orbitCache r')"
    by (simp add: list_all_iff)
  have "map_of (orbitCache r) key = None" using assms(1) by (simp add: scanRuns_def)
  then have "key \<notin> fst ` set (orbitCache r)" by (simp add: map_of_eq_None_iff)
  then have "key \<notin> fst ` set ?kept" by force
  then show "length (orbitCache r') = length ?kept + 1"
    by (simp add: r' length_update_new)
qed

text \<open>
  Claim C4, amended. \<open>renderOrbit\<close> removes an entry from the orbit cache only in an
  eviction scan, which requires a cache of more than 200 entries, and only if the entry has
  not been used for more than 16 frames (\<open>frameCount - lastUsed > 16\<close>); however many
  orbits are rendered in one frame, the scan runs at most once; after a scan no remaining
  entry is older than 16 frames. The size of the cache is not bounded by 200 plus the
  insertions since the scan: a scan keeps every entry used within the last 16 frames, so
  after the call that scanned the cache holds exactly those entries and the new one.
\<close>

theorem orbit_cache_eviction:
  assumes "r' = renderOrbit opts key orbit t r"
  shows "((k, plot) \<in> set (orbitCache r) \<and> k \<notin> fst ` set (orbitCache r') \<longrightarrow>
            length (orbitCache r) > 200 \<and> frameCount r - lastUsed plot > 16 \<and> scanRuns key r) \<and>
         scanCount opts reqs r \<le> 1 \<and>
         (scanRuns key r \<longrightarrow>
            list_all (\<lambda>(k, plot). \<not> frameCount r' - lastUsed plot > 16) (orbitCache r') \<and>
            length (orbitCache r') =
              length (filter (\<lambda>(k, plot). \<not> frameCount r - lastUsed plot > 16) (orbitCache r)) + 1)"
proof -
  have a: "(k, plot) \<in> set (orbitCache r) \<and> k \<notin> fst ` set (orbitCache r') \<longrightarrow>
            length (orbitCache r) > 200 \<and> frameCount r - lastUsed plot > 16 \<and> scanRuns key r"
    using removed_entry [of k plot r opts key orbit t] assms
    by (auto simp: scanRuns_def scanDue_def retired_def OrbitCacheCullThreshold_def
        OrbitCacheRetireAge_def)
  have c: "scanRuns key r \<longrightarrow>
            list_all (\<lambda>(k, plot). \<not> frameCount r' - lastUsed plot > 16) (orbitCache r') \<and>
            length (orbitCache r') =
              length (filter (\<lambda>(k, plot). \<not> frameCount r - lastUsed plot > 16) (orbitCache r)) + 1"
    using after_scan [of key r r' opts orbit t] assms
    by (simp add: retired_def OrbitCacheRetireAge_def)
  show ?thesis using a c scanCount_le_1 by blast
qed

lemma activeCache_scanRuns: "scanRuns 500 activeCache"
  by (auto simp: scanRuns_def scanDue_def activeCache_def OrbitCacheCullThreshold_def
      map_of_eq_None_iff)

lemma activeCache_kept:
  "filter (\<lambda>(k, plot). \<not> frameCount activeCache - lastUsed plot > 16) (orbitCache activeCache)
     = orbitCache activeCache"
  by (simp add: activeCache_def plotUsedAt_def filter_map o_def)

text \<open>
  Claim C4 as stated fails in its size bound: with 201 orbits all used in the current
  frame, rendering one more orbit runs the scan, which removes nothing, and the cache
  holds 202 entries after a single insertion.
\<close>

theorem orbit_cache_size_counterexample:
  "scanRuns 500 activeCache \<and>
   length (orbitCache (renderOrbit defaultOptions 500 orbit100 0 activeCache)) = 202 \<and>
   length (orbitCache (renderOrbit defaultOptions 500 orbit100 0 activeCache))
     > OrbitCacheCullThreshold + 1"
proof -
  have "length (orbitCache (renderOrbit defaultOptions 500 orbit100 0 activeCache)) =
          length (orbitCache activeCache) + 1"
    using after_scan(2) [OF activeCache_scanRuns refl, of defaultOptions orbit100 0]
    by (simp add: retired_def OrbitCacheRetireAge_def activeCache_kept)
  then have "length (orbitCache (renderOrbit defaultOptions 500 orbit100 0 activeCache)) = 202"
    by (simp add: activeCache_def)
  with activeCache_scanRuns show ?thesis by (simp add: OrbitCacheCullThreshold_def)
qed

lemma agedCache_scanRuns: "scanRuns 500 agedCache"
  by (auto simp: scanRuns_def scanDue_def agedCache_def OrbitCacheCullThreshold_def
      map_of_eq_None_iff)

lemma agedCache_kept:
  "filter (\<lambda>(k, plot). \<not> frameCount agedCache - lastUsed plot > 16) (orbitCache agedCache)
     = map (\<lambda>k. (k, plotUsedAt 40)) [100..<201]"
  by (simp add: agedCache_def plotUsedAt_def filter_map o_def)

lemma agedCache_after:
  "0 \<notin> fst ` set (orbitCache (renderOrbit defaultOptions 500 orbit100 0 agedCache))"
proof -
  have "orbitCache (cullOrbitCache agedCache) = map (\<lambda>k. (k, plotUsedAt 40)) [100..<201]"
    using agedCache_scanRuns agedCache_kept
    by (simp add: cullOrbitCache_def scanRuns_def scanDue_def retired_def OrbitCacheRetireAge_def)
  then show ?thesis
    using agedCache_scanRuns
    by (simp add: renderOrbit_def scanRuns_def Let_def dom_update image_image)
qed

theorem orbit_cache_eviction_witness:
  "(0, plotUsedAt 0) \<in> set (orbitCache agedCache) \<and>
   0 \<notin> fst ` set (orbitCache (renderOrbit defaultOptions 500 orbit100 0 agedCache)) \<and>
   length (orbitCache agedCache) > 200 \<and>
   frameCount agedCache - lastUsed (plotUsedAt 0) > 16 \<and>
   scanRuns 500 agedCache \<and>
   scanCount defaultOptions [(500, orbit100, 0), (501, orbit100, 0)] agedCache \<le> 1 \<and>
   length (orbitCache (renderOrbit defaultOptions 500 orbit100 0 agedCache)) = 102"
proof -
  have a: "(0, plotUsedAt 0) \<in> set (orbitCache agedCache)"
    by (simp add: agedCache_def)
  have b: "0 \<notin> fst ` set (orbitCache (renderOrbit defaultOptions 500 orbit100 0 agedCache))"
    by (rule agedCache_after)
  show ?thesis
    using orbit_cache_eviction [OF refl, of 0 "plotUsedAt 0" agedCache defaultOptions 500 orbit100 0
        "[(500, orbit100, 0), (501, orbit100, 0)]"] a b agedCache_scanRuns
    by (simp add: agedCache_kept)
qed

section \<open>Verification of the orbit window\<close>

lemma updateWindow_covered:
  "isPeriodic orbit \<longrightarrow> windowCovered opts orbit t plot \<Longrightarrow>
   updateWindow opts orbit t plot = plot"
  by (auto simp: updateWindow_def windowCovered_def)

lemma finishOrbit_covered:
  "isPeriodic orbit \<longrightarrow> windowCovered opts orbit t plot \<Longrightarrow>
   finishOrbit opts orbit t plot = plot"
  by (simp add: finishOrbit_def updateWindow_covered)

lemma windowCovered_lastUsed [simp]:
  "windowCovered opts orbit t (plot\<lparr>lastUsed := n\<rparr>) = windowCovered opts orbit t plot"
  by (simp add: windowCovered_def startTime_def endTime_def)

lemma samples_update_same:
  "map_of al k = Some v \<Longrightarrow> samples v' = samples v \<Longrightarrow>
   map (\<lambda>(k, plot). (k, samples plot)) (AList.update k v' al)
     = map (\<lambda>(k, plot). (k, samples plot)) al"
  by (induction al) (auto split: if_splits)

lemma cached_lastUsed:
  assumes "shaderAvailable r" and "map_of (orbitCache (renderOrbit opts key orbit t r)) key = Some p1"
  shows "lastUsed p1 = frameCount r"
  using assms
  by (auto simp: renderOrbit_def Let_def update_conv' split: option.splits)

text \<open>
  A cache hit whose display window lies inside the cached window (and every hit for an
  aperiodic orbit) neither trims nor samples: the cached samples of every orbit stay as
  they are, in whatever frame the call happens, and in the same frame the whole renderer
  state stays as it is.
\<close>

lemma renderOrbit_covered_hit:
  assumes "r1 = renderOrbit opts key orbit t r"
    and "shaderAvailable r"
    and "map_of (orbitCache r1) key = Some p1"
    and "isPeriodic orbit \<longrightarrow> windowCovered opts orbit t p1"
  shows "updateWindow opts orbit t p1 = p1 \<and>
         cachedSamples (renderOrbit opts key orbit t (r1\<lparr>frameCount := n\<rparr>)) = cachedSamples r1 \<and>
         renderOrbit opts key orbit t r1 = r1"
proof -
  have sh: "shaderAvailable r1" using assms(1,2) by simp
  let ?p = "p1\<lparr>lastUsed := n\<rparr>"
  have "finishOrbit opts orbit t ?p = ?p"
    using assms(4) by (intro finishOrbit_covered) simp
  then have "orbitCache (renderOrbit opts key orbit t (r1\<lparr>frameCount := n\<rparr>))
               = AList.update key ?p (orbitCache r1)"
    using sh assms(3) by (simp add: renderOrbit_def Let_def)
  then have a: "cachedSamples (renderOrbit opts key orbit t (r1\<lparr>frameCount := n\<rparr>)) = cachedSamples r1"
    using assms(3) by (simp add: cachedSamples_def samples_update_same)
  have lu: "lastUsed p1 = frameCount r1"
    using cached_lastUsed [OF assms(2)] assms(1,3) by simp
  then have same: "p1\<lparr>lastUsed := frameCount r1\<rparr> = p1" by simp
  have "finishOrbit opts orbit t p1 = p1"
    using assms(4) by (rule finishOrbit_covered)
  then have b: "renderOrbit opts key orbit t r1 = r1"
    using sh assms(3) same by (simp add: renderOrbit_def Let_def update_triv)
  have "updateWindow opts orbit t p1 = p1"
    using assms(4) by (rule updateWindow_covered)
  then show ?thesis using a b by simp
qed

lemma upt5: "[0..<5] = [0, 1, 2, 3, 4::nat]"
  by (simp add: upt_rec)

lemmas orbit_defs =
  renderOrbit_def finishOrbit_def updateWindow_def slideForward_def slideBackward_def
  newCachedOrbit_def cullOrbitCache_def insertForward_def insertBackward_def addSample_def
  removeSamplesBefore_def removeSamplesAfter_def startTime_def endTime_def empty_def
  windowStart_def windowEnd_def newWindowStart_def newWindowEnd_def forwardSampleStart_def
  WindowSlack_def OrbitCacheCullThreshold_def uniformSamples_def orbit100_def
  emptyRenderer_def upt5

lemma twoPeriods_first:
  "renderOrbit twoPeriodOptions 7 orbit100 0 emptyRenderer =
     emptyRenderer\<lparr>orbitCache :=
       [(7, \<lparr>samples = [- 170, - (305 / 2), - 135, - (235 / 2), - 100, - 75, - 50, - 25, 0],
             lastUsed = 0\<rparr>)]\<rparr>"
  by (simp add: orbit_defs twoPeriodOptions_def Let_def)

lemma twoPeriods_second:
  "renderOrbit twoPeriodOptions 7 orbit100 0
     (renderOrbit twoPeriodOptions 7 orbit100 0 emptyRenderer) =
     emptyRenderer\<lparr>orbitCache :=
       [(7, \<lparr>samples = [- 170, - (305 / 2), - 135, - (235 / 2), - 100, - 75, - 50, - 25, 0,
                         35 / 2, 35, 105 / 2, 70],
             lastUsed = 0\<rparr>)]\<rparr>"
  unfolding twoPeriods_first
  by (simp add: orbit_defs twoPeriodOptions_def Let_def)

lemma default_first:
  "renderOrbit defaultOptions 7 orbit100 0 emptyRenderer =
     emptyRenderer\<lparr>orbitCache :=
       [(7, \<lparr>samples = [- 50, - 25, 0, 35 / 2, 35, 105 / 2, 70], lastUsed = 0\<rparr>)]\<rparr>"
  by (simp add: orbit_defs defaultOptions_def Let_def)

lemma default_second:
  "renderOrbit defaultOptions 7 orbit100 60 (renderOrbit defaultOptions 7 orbit100 0 emptyRenderer) =
     emptyRenderer\<lparr>orbitCache :=
       [(7, \<lparr>samples = [0, 35 / 2, 35, 105 / 2, 70, 85, 100, 115, 130], lastUsed = 0\<rparr>)]\<rparr>"
  unfolding default_first
  by (simp add: orbit_defs defaultOptions_def Let_def)

lemma half_first:
  "renderOrbit halfPeriodOptions 7 orbit100 0 emptyRenderer =
     emptyRenderer\<lparr>orbitCache :=
       [(7, \<lparr>samples = [0, 35 / 2, 35, 105 / 2, 70], lastUsed = 0\<rparr>)]\<rparr>"
  by (simp add: orbit_defs halfPeriodOptions_def Let_def)

lemma half_second:
  "renderOrbit halfPeriodOptions 7 orbit100 95 (renderOrbit halfPeriodOptions 7 orbit100 0 emptyRenderer) =
     emptyRenderer\<lparr>orbitCache :=
       [(7, \<lparr>samples = [75, 195 / 2, 120, 285 / 2, 165], lastUsed = 0\<rparr>)]\<rparr>"
  unfolding half_first
  by (simp add: orbit_defs halfPeriodOptions_def Let_def)

lemma kept_dropWhile: "x \<in> set xs \<Longrightarrow> \<not> P x \<Longrightarrow> x \<in> set (dropWhile P xs)"
  by (induction xs) auto

lemma kept_removeSamplesBefore:
  "x \<in> set (samples plot) \<Longrightarrow> a \<le> x \<Longrightarrow> x \<in> set (samples (removeSamplesBefore a plot))"
  by (simp add: removeSamplesBefore_def kept_dropWhile)

lemma kept_removeSamplesAfter:
  "x \<in> set (samples plot) \<Longrightarrow> x \<le> b \<Longrightarrow> x \<in> set (samples (removeSamplesAfter b plot))"
  by (simp add: removeSamplesAfter_def kept_dropWhile)

lemma samples_removeSamplesBefore_subset:
  "set (samples (removeSamplesBefore a plot)) \<subseteq> set (samples plot)"
  by (auto simp: removeSamplesBefore_def dest: set_dropWhileD)

lemma samples_removeSamplesAfter_subset:
  "set (samples (removeSamplesAfter b plot)) \<subseteq> set (samples plot)"
  by (auto simp: removeSamplesAfter_def dest: set_dropWhileD)

lemma last_removeSamplesAfter:
  "samples (removeSamplesAfter b plot) = [] \<or> last (samples (removeSamplesAfter b plot)) \<le> b"
proof (cases "dropWhile (\<lambda>x. x > b) (rev (samples plot)) = []")
  case True
  then show ?thesis by (simp add: removeSamplesAfter_def)
next
  case False
  then have "\<not> hd (dropWhile (\<lambda>x. x > b) (rev (samples plot))) > b"
    by (rule hd_dropWhile)
  with False show ?thesis by (simp add: removeSamplesAfter_def last_rev)
qed

lemma samples_addSample: "set (samples plot) \<subseteq> set (samples (addSample x plot))"
  by (auto simp: addSample_def)

lemma samples_addSample_subset: "set (samples (addSample x plot)) \<subseteq> insert x (set (samples plot))"
  by (auto simp: addSample_def)

lemma samples_insertForward: "set (samples plot) \<subseteq> set (samples (insertForward xs plot))"
  unfolding insertForward_def
proof (induction xs arbitrary: plot)
  case Nil
  then show ?case by simp
next
  case (Cons x xs)
  have "set (samples plot) \<subseteq> set (samples (addSample x plot))" by (rule samples_addSample)
  also have "\<dots> \<subseteq> set (samples (fold addSample xs (addSample x plot)))" by (rule Cons.IH)
  finally show ?case by simp
qed

lemma samples_insertForward_subset:
  "set (samples (insertForward xs plot)) \<subseteq> set xs \<union> set (samples plot)"
  unfolding insertForward_def
proof (induction xs arbitrary: plot)
  case Nil
  then show ?case by simp
next
  case (Cons x xs)
  have "set (samples (fold addSample xs (addSample x plot)))
          \<subseteq> set xs \<union> set (samples (addSample x plot))" by (rule Cons.IH)
  also have "\<dots> \<subseteq> set xs \<union> insert x (set (samples plot))"
    using samples_addSample_subset [of x plot] by auto
  finally show ?case by auto
qed

lemma first_sample_inserted:
  assumes "samples plot = [] \<or> last (samples plot) < x"
  shows "x \<in> set (samples (insertForward (x # xs) plot))"
proof -
  have "x \<in> set (samples (addSample x plot))"
    using assms by (auto simp: addSample_def)
  then show ?thesis
    using samples_insertForward [of "addSample x plot" xs] by (auto simp: insertForward_def)
qed

lemma last_dropWhile_suffix: "dropWhile P xs \<noteq> [] \<Longrightarrow> last (dropWhile P xs) = last xs"
  by (induction xs) (auto split: if_splits)

lemma slideForward_keeps:
  assumes first: "sample orbit (forwardSampleStart opts orbit t cached) (newWindowEnd opts orbit t)
                  = forwardSampleStart opts orbit t cached # rest"
    and x: "x \<in> set (samples cached)" "newWindowStart opts orbit t \<le> x"
      "x \<le> endTime cached * (1 - 1 / 10 ^ 15) \<or> x = endTime cached"
  shows "x \<in> set (samples (slideForward opts orbit t cached))"
proof -
  let ?nws = "newWindowStart opts orbit t"
  let ?cwe = "endTime cached"
  let ?p1 = "removeSamplesBefore ?nws cached"
  let ?p2 = "removeSamplesAfter (endTime ?p1 * (1 - 1 / 10 ^ 15)) ?p1"
  let ?new = "sample orbit (forwardSampleStart opts orbit t cached) (newWindowEnd opts orbit t)"
  have sf: "slideForward opts orbit t cached = insertForward ?new ?p2"
    by (simp add: slideForward_def Let_def)
  have ne: "samples cached \<noteq> []" using x(1) by auto
  have x1: "x \<in> set (samples ?p1)" using x(1,2) by (rule kept_removeSamplesBefore)
  then have ne1: "samples ?p1 \<noteq> []" by auto
  then have "last (samples ?p1) = last (samples cached)"
    by (simp add: removeSamplesBefore_def last_dropWhile_suffix)
  with ne ne1 have e1: "endTime ?p1 = ?cwe" by (simp add: endTime_def)
  show ?thesis
  proof (cases "x \<le> ?cwe * (1 - 1 / 10 ^ 15)")
    case True
    then have "x \<in> set (samples ?p2)"
      using x1 e1 by (intro kept_removeSamplesAfter) simp_all
    then show ?thesis
      unfolding sf using samples_insertForward [of ?p2 ?new] by auto
  next
    case False
    with x(3) have xe: "x = ?cwe" by simp
    with x(2) have start: "forwardSampleStart opts orbit t cached = x"
      by (simp add: forwardSampleStart_def)
    have "samples ?p2 = [] \<or> last (samples ?p2) \<le> ?cwe * (1 - 1 / 10 ^ 15)"
      using last_removeSamplesAfter [of "endTime ?p1 * (1 - 1 / 10 ^ 15)" ?p1] e1 by simp
    with False xe have "samples ?p2 = [] \<or> last (samples ?p2) < x" by auto
    then have "x \<in> set (samples (insertForward (x # rest) ?p2))"
      by (rule first_sample_inserted)
    then show ?thesis
      unfolding sf using first start by simp
  qed
qed

lemma slideForward_new:
  assumes "y \<in> set (samples (slideForward opts orbit t cached))" and "y \<notin> set (samples cached)"
  shows "y \<in> set (sample orbit (forwardSampleStart opts orbit t cached) (newWindowEnd opts orbit t))"
proof -
  let ?p1 = "removeSamplesBefore (newWindowStart opts orbit t) cached"
  let ?p2 = "removeSamplesAfter (endTime ?p1 * (1 - 1 / 10 ^ 15)) ?p1"
  let ?new = "sample orbit (forwardSampleStart opts orbit t cached) (newWindowEnd opts orbit t)"
  have "set (samples ?p2) \<subseteq> set (samples cached)"
    using samples_removeSamplesAfter_subset [of "endTime ?p1 * (1 - 1 / 10 ^ 15)" ?p1]
      samples_removeSamplesBefore_subset [of "newWindowStart opts orbit t" cached]
    by blast
  moreover have "y \<in> set ?new \<union> set (samples ?p2)"
    using assms(1) samples_insertForward_subset [of ?new ?p2]
    by (auto simp: slideForward_def Let_def)
  ultimately show ?thesis using assms(2) by auto
qed

lemma sorted_le_last:
  "sorted_wrt (<) (xs :: real list) \<Longrightarrow> x \<in> set xs \<Longrightarrow> x \<le> last xs"
  by (induction xs) (auto simp: less_imp_le)

lemma dropWhile_sorted:
  "sorted_wrt (<) (xs :: real list) \<Longrightarrow>
   dropWhile (\<lambda>x. x < a) xs = filter (\<lambda>x. a \<le> x) xs"
proof (induction xs)
  case Nil
  then show ?case by simp
next
  case (Cons x xs)
  show ?case
  proof (cases "x < a")
    case True
    with Cons show ?thesis by simp
  next
    case False
    then have "\<forall>y \<in> set xs. a \<le> y" using Cons.prems by auto
    then have "filter (\<lambda>x. a \<le> x) xs = xs" by simp
    with False show ?thesis by simp
  qed
qed

lemma rev_dropWhile_sorted:
  "sorted_wrt (<) (xs :: real list) \<Longrightarrow>
   rev (dropWhile (\<lambda>x. x > b) (rev xs)) = filter (\<lambda>x. x \<le> b) xs"
proof (induction xs rule: rev_induct)
  case Nil
  then show ?case by simp
next
  case (snoc x xs)
  have sx: "sorted_wrt (<) xs" and lt: "\<forall>y \<in> set xs. y < x"
    using snoc.prems by (auto simp: sorted_wrt_append)
  show ?case
  proof (cases "x > b")
    case True
    with snoc.IH sx show ?thesis by simp
  next
    case False
    then have "\<forall>y \<in> set xs. y \<le> b" using lt by auto
    then have "filter (\<lambda>x. x \<le> b) xs = xs" by simp
    with False show ?thesis by simp
  qed
qed

lemma fold_addSample_sorted:
  assumes "sorted_wrt (<) ys" and "\<forall>y \<in> set ys. \<forall>x \<in> set (samples plot). x \<le> y"
  shows "samples (fold addSample ys plot)
           = samples plot @ dropWhile (\<lambda>y. samples plot \<noteq> [] \<and> y \<le> last (samples plot)) ys"
  using assms
proof (induction ys arbitrary: plot)
  case Nil
  then show ?case by simp
next
  case (Cons y ys)
  have sy: "sorted_wrt (<) ys" and gt: "\<forall>y' \<in> set ys. y < y'"
    using Cons.prems(1) by auto
  show ?case
  proof (cases "samples plot = [] \<or> y > last (samples plot)")
    case True
    then have a: "samples (addSample y plot) = samples plot @ [y]"
      by (auto simp: addSample_def)
    have "\<forall>y' \<in> set ys. \<forall>x \<in> set (samples (addSample y plot)). x \<le> y'"
      using Cons.prems(2) gt by (auto simp: a less_imp_le)
    then have "samples (fold addSample ys (addSample y plot))
                 = samples (addSample y plot)
                     @ dropWhile (\<lambda>y'. samples (addSample y plot) \<noteq> []
                                    \<and> y' \<le> last (samples (addSample y plot))) ys"
      using sy by (rule Cons.IH [rotated])
    also have "\<dots> = (samples plot @ [y]) @ dropWhile (\<lambda>y'. y' \<le> y) ys"
      by (simp add: a)
    also have "dropWhile (\<lambda>y'. y' \<le> y) ys = ys"
      using gt by (cases ys) auto
    finally show ?thesis using True by auto
  next
    case False
    then have ne: "samples plot \<noteq> []" and le: "y \<le> last (samples plot)" by auto
    have "hd (samples plot) \<in> set (samples plot)" using ne by simp
    then have "hd (samples plot) \<le> y" using Cons.prems(2) by simp
    then have a: "addSample y plot = plot"
      using False by (simp add: addSample_def)
    have "\<forall>y' \<in> set ys. \<forall>x \<in> set (samples plot). x \<le> y'"
      using Cons.prems(2) by simp
    then have "samples (fold addSample ys plot)
                 = samples plot @ dropWhile (\<lambda>y. samples plot \<noteq> [] \<and> y \<le> last (samples plot)) ys"
      using sy by (rule Cons.IH [rotated])
    then show ?thesis using a ne le by simp
  qed
qed

lemma slideForward_samples:
  assumes sorted: "sorted_wrt (<) (samples cached)"
    and new: "sample orbit (forwardSampleStart opts orbit t cached) (newWindowEnd opts orbit t)
                = forwardSampleStart opts orbit t cached # rest"
    and snew: "sorted_wrt (<) (forwardSampleStart opts orbit t cached # rest)"
    and kept: "kept = filter (\<lambda>x. newWindowStart opts orbit t \<le> x
                               \<and> x \<le> endTime cached * (1 - 1 / 10 ^ 15)) (samples cached)"
  shows "samples (slideForward opts orbit t cached)
           = kept @ dropWhile (\<lambda>y. kept \<noteq> [] \<and> y \<le> last kept)
                      (forwardSampleStart opts orbit t cached # rest)"
proof -
  let ?nws = "newWindowStart opts orbit t"
  let ?cwe = "endTime cached"
  let ?start = "forwardSampleStart opts orbit t cached"
  let ?p1 = "removeSamplesBefore ?nws cached"
  let ?p2 = "removeSamplesAfter (endTime ?p1 * (1 - 1 / 10 ^ 15)) ?p1"
  have sf: "slideForward opts orbit t cached = insertForward (?start # rest) ?p2"
    by (simp add: slideForward_def Let_def new)
  have p1: "samples ?p1 = filter (\<lambda>x. ?nws \<le> x) (samples cached)"
    using sorted by (simp add: removeSamplesBefore_def dropWhile_sorted)
  have s1: "sorted_wrt (<) (samples ?p1)"
    using sorted by (simp add: p1 sorted_wrt_filter)
  have p2': "samples ?p2 = filter (\<lambda>x. x \<le> endTime ?p1 * (1 - 1 / 10 ^ 15)) (samples ?p1)"
    unfolding removeSamplesAfter_def using rev_dropWhile_sorted [OF s1] by simp
  have p2: "samples ?p2 = kept"
  proof (cases "samples ?p1 = []")
    case True
    then have "filter (\<lambda>x. ?nws \<le> x) (samples cached) = []" by (simp add: p1)
    then have "kept = []"
      unfolding kept by (auto simp: filter_empty_conv)
    with True show ?thesis unfolding p2' by simp
  next
    case False
    then have "last (samples ?p1) = last (samples cached)"
      by (simp add: removeSamplesBefore_def last_dropWhile_suffix)
    moreover have "samples cached \<noteq> []" using False by (auto simp: p1)
    ultimately have e1: "endTime ?p1 = ?cwe" using False by (simp add: endTime_def)
    have "samples ?p2 = filter (\<lambda>x. x \<le> endTime ?p1 * (1 - 1 / 10 ^ 15)) (samples ?p1)"
      by (rule p2')
    also have "\<dots> = filter (\<lambda>x. x \<le> ?cwe * (1 - 1 / 10 ^ 15))
                       (filter (\<lambda>x. ?nws \<le> x) (samples cached))"
      by (simp only: e1 p1)
    also have "\<dots> = kept" by (simp only: kept filter_filter)
    finally show ?thesis .
  qed
  have bound: "\<forall>y \<in> set (?start # rest). \<forall>x \<in> set (samples ?p2). x \<le> y"
  proof (intro ballI)
    fix y x assume y: "y \<in> set (?start # rest)" and x: "x \<in> set (samples ?p2)"
    have "x \<in> set kept" using x unfolding p2 .
    then have "x \<in> set (samples cached)" by (simp add: kept)
    then have "x \<le> ?cwe" using sorted sorted_le_last [of "samples cached" x]
      by (auto simp: endTime_def)
    also have "?cwe \<le> ?start" by (simp add: forwardSampleStart_def)
    also have "?start \<le> y" using y snew by (auto simp: less_imp_le)
    finally show "x \<le> y" .
  qed
  have "samples (fold addSample (?start # rest) ?p2)
          = samples ?p2 @ dropWhile (\<lambda>y. samples ?p2 \<noteq> [] \<and> y \<le> last (samples ?p2)) (?start # rest)"
    using snew bound by (rule fold_addSample_sorted)
  then show ?thesis unfolding sf insertForward_def p2 .
qed

lemma incremental_strict:
  assumes "t - t0 < getPeriod orbit * (orbitPeriodsShown opts + WindowSlack)"
    and "windowEnd opts orbit t0 \<le> endTime cached"
  shows "newWindowStart opts orbit t < endTime cached"
    and "forwardSampleStart opts orbit t cached = endTime cached"
    and "newWindowEnd opts orbit t - forwardSampleStart opts orbit t cached
           \<le> (t - t0) + getPeriod orbit * WindowSlack"
    and "newWindowEnd opts orbit t - forwardSampleStart opts orbit t cached
           < getPeriod orbit * (orbitPeriodsShown opts + 2 * WindowSlack)"
proof -
  have nws: "newWindowStart opts orbit t
          = windowEnd opts orbit t0 + (t - t0)
              - getPeriod orbit * (orbitPeriodsShown opts + WindowSlack)"
    by (simp add: newWindowStart_def windowStart_def windowEnd_def algebra_simps)
  with assms show lt: "newWindowStart opts orbit t < endTime cached" by simp
  then show st: "forwardSampleStart opts orbit t cached = endTime cached"
    by (simp add: forwardSampleStart_def)
  have "newWindowEnd opts orbit t = windowEnd opts orbit t0 + (t - t0) + getPeriod orbit * WindowSlack"
    by (simp add: newWindowEnd_def windowEnd_def algebra_simps)
  with assms(2) show "newWindowEnd opts orbit t - forwardSampleStart opts orbit t cached
           \<le> (t - t0) + getPeriod orbit * WindowSlack"
    by (simp add: st)
  have "newWindowEnd opts orbit t - newWindowStart opts orbit t
          = getPeriod orbit * (orbitPeriodsShown opts + 2 * WindowSlack)"
    by (simp add: newWindowEnd_def newWindowStart_def windowStart_def algebra_simps)
  with lt show "newWindowEnd opts orbit t - forwardSampleStart opts orbit t cached
           < getPeriod orbit * (orbitPeriodsShown opts + 2 * WindowSlack)"
    by (simp add: st)
qed

text \<open>
  Claim C2, amended. In the forward case of a periodic orbit (the cached window starts no
  later than the display window and ends before its end), with cached samples in strictly
  increasing order and a sampler that returns the start of the sampled range followed by
  later samples in strictly increasing order, the window after the call consists of exactly
  the cached samples that are not earlier than the new window start minus the slack of 20%
  of the period and not later than the last cached sample less a relative \<open>10\<^sup>-\<^sup>1\<^sup>5\<close>,
  followed by the samples of the range from the old window end (or the new window start
  minus slack, if that is later) to the new window end plus slack, a first sample that is
  not later than the last kept one being discarded. Hence every cached sample not earlier
  than the new window start minus slack is still cached afterwards, in particular every
  cached sample inside the new display window, apart from samples within a relative
  \<open>10\<^sup>-\<^sup>1\<^sup>5\<close> strictly below the last cached sample; the last cached sample itself is trimmed
  and taken again as the first sample of the range. Only samples earlier than the new
  window start minus slack, or in that trimmed end, are removed; every sample that is new
  comes from the sampled range and is later than the old window end; and when the sampler
  returns more than the start of the range, the window then ends at the last sample
  returned. When the step from a time \<open>t0\<close> whose display window end the cache covered is
  smaller than \<open>OrbitPeriodsShown + 0.2\<close> periods, the old window end lies after the new
  window start minus slack, sampling starts at the old window end, and the sampled range
  is no longer than the step plus the slack, which is shorter than the
  \<open>OrbitPeriodsShown + 0.4\<close> periods of a full window: only the increment is sampled. The
  witness is the scenario of the claim: period 100, \<open>OrbitWindowEnd\<close> 0.5,
  \<open>OrbitPeriodsShown\<close> 1.0, queries at 0 and at 60.
\<close>

theorem orbit_window_forward_slide:
  assumes "isPeriodic orbit" and "0 \<le> getPeriod orbit"
    and "sorted_wrt (<) (samples cached)" and "samples cached \<noteq> []"
    and "startTime cached \<le> windowStart opts orbit t"
    and "endTime cached < windowEnd opts orbit t"
    and "sample orbit (forwardSampleStart opts orbit t cached) (newWindowEnd opts orbit t)
           = forwardSampleStart opts orbit t cached # rest"
    and "sorted_wrt (<) (forwardSampleStart opts orbit t cached # rest)"
    and "kept = filter (\<lambda>x. newWindowStart opts orbit t \<le> x
                          \<and> x \<le> endTime cached * (1 - 1 / 10 ^ 15)) (samples cached)"
    and "plot' = updateWindow opts orbit t cached"
  shows "samples plot' = kept @ dropWhile (\<lambda>y. kept \<noteq> [] \<and> y \<le> last kept)
                                  (forwardSampleStart opts orbit t cached # rest) \<and>
         (x \<in> set (samples cached) \<and> newWindowStart opts orbit t \<le> x \<and>
            (x \<le> endTime cached * (1 - 1 / 10 ^ 15) \<or> x = endTime cached)
            \<longrightarrow> x \<in> set (samples plot')) \<and>
         (x \<in> set (samples cached) \<and> windowStart opts orbit t \<le> x \<and>
            (x \<le> endTime cached * (1 - 1 / 10 ^ 15) \<or> x = endTime cached)
            \<longrightarrow> x \<in> set (samples plot')) \<and>
         (x \<in> set (samples cached) \<and> x \<notin> set (samples plot')
            \<longrightarrow> x < newWindowStart opts orbit t
                \<or> (endTime cached * (1 - 1 / 10 ^ 15) < x \<and> x < endTime cached)) \<and>
         (y \<in> set (samples plot') \<and> y \<notin> set (samples cached)
            \<longrightarrow> y \<in> set (forwardSampleStart opts orbit t cached # rest)
                \<and> endTime cached < y) \<and>
         (rest \<noteq> [] \<longrightarrow> endTime plot' = last rest) \<and>
         (t - t0 < getPeriod orbit * (orbitPeriodsShown opts + WindowSlack) \<and>
          windowEnd opts orbit t0 \<le> endTime cached
            \<longrightarrow> newWindowStart opts orbit t < endTime cached \<and>
                forwardSampleStart opts orbit t cached = endTime cached \<and>
                newWindowEnd opts orbit t - forwardSampleStart opts orbit t cached
                  \<le> (t - t0) + getPeriod orbit * WindowSlack \<and>
                newWindowEnd opts orbit t - forwardSampleStart opts orbit t cached
                  < getPeriod orbit * (orbitPeriodsShown opts + 2 * WindowSlack))"
proof -
  let ?start = "forwardSampleStart opts orbit t cached"
  let ?cwe = "endTime cached"
  let ?P = "\<lambda>y. kept \<noteq> [] \<and> y \<le> last kept"
  have p': "plot' = slideForward opts orbit t cached"
    using assms(1,5,6,10) by (simp add: updateWindow_def)
  have A: "samples plot' = kept @ dropWhile ?P (?start # rest)"
    unfolding p' using assms(3,7,8,9) by (rule slideForward_samples)
  have k: "x \<in> set (samples cached) \<and> newWindowStart opts orbit t \<le> x \<and>
           (x \<le> ?cwe * (1 - 1 / 10 ^ 15) \<or> x = ?cwe) \<longrightarrow> x \<in> set (samples plot')"
    unfolding p' using slideForward_keeps [OF assms(7)] by blast
  have "newWindowStart opts orbit t \<le> windowStart opts orbit t"
    using assms(2) by (simp add: newWindowStart_def WindowSlack_def)
  with k have w: "x \<in> set (samples cached) \<and> windowStart opts orbit t \<le> x \<and>
           (x \<le> ?cwe * (1 - 1 / 10 ^ 15) \<or> x = ?cwe) \<longrightarrow> x \<in> set (samples plot')"
    by auto
  have xle: "z \<le> ?cwe" if "z \<in> set (samples cached)" for z
    using that assms(3) sorted_le_last [of "samples cached" z] by (auto simp: endTime_def)
  have r: "x \<in> set (samples cached) \<and> x \<notin> set (samples plot')
            \<longrightarrow> x < newWindowStart opts orbit t \<or> (?cwe * (1 - 1 / 10 ^ 15) < x \<and> x < ?cwe)"
    using k xle [of x] by force
  have keptsub: "set kept \<subseteq> set (samples cached)" by (auto simp: assms(9))
  have cs: "?cwe \<le> ?start" by (simp add: forwardSampleStart_def)
  have cin: "?cwe \<in> set (samples cached)" using assms(4) by (simp add: endTime_def)
  have n: "y \<in> set (samples plot') \<and> y \<notin> set (samples cached)
             \<longrightarrow> y \<in> set (?start # rest) \<and> ?cwe < y"
  proof (intro impI)
    assume y: "y \<in> set (samples plot') \<and> y \<notin> set (samples cached)"
    then have "y \<in> set (dropWhile ?P (?start # rest))"
      using A keptsub by auto
    then have yin: "y \<in> set (?start # rest)" by (rule set_dropWhileD)
    then have "?start \<le> y" using assms(8) by (auto simp: less_imp_le)
    with cs have "?cwe \<le> y" by simp
    moreover have "?cwe \<noteq> y" using y cin by auto
    ultimately show "y \<in> set (?start # rest) \<and> ?cwe < y" using yin by simp
  qed
  have e: "rest \<noteq> [] \<longrightarrow> endTime plot' = last rest"
  proof (intro impI)
    assume ne: "rest \<noteq> []"
    have "\<not> ?P z" if "z \<in> set rest" for z
    proof
      assume P: "?P z"
      then have "last kept \<in> set kept" by simp
      then have "last kept \<le> ?cwe" using keptsub xle by auto
      moreover have "?start < z" using that assms(8) by auto
      ultimately show False using P cs by simp
    qed
    then have "dropWhile ?P rest = rest" using ne by (cases rest) auto
    then have "dropWhile ?P (?start # rest) = rest \<or> dropWhile ?P (?start # rest) = ?start # rest"
      by (cases "kept \<noteq> [] \<and> ?start \<le> last kept") auto
    then have "dropWhile ?P (?start # rest) \<noteq> [] \<and> last (dropWhile ?P (?start # rest)) = last rest"
    proof (elim disjE)
      assume H: "dropWhile ?P (?start # rest) = rest"
      show ?thesis unfolding H using ne by simp
    next
      assume H: "dropWhile ?P (?start # rest) = ?start # rest"
      show ?thesis unfolding H using ne by simp
    qed
    then show "endTime plot' = last rest" by (simp add: endTime_def A)
  qed
  have i: "t - t0 < getPeriod orbit * (orbitPeriodsShown opts + WindowSlack) \<and>
          windowEnd opts orbit t0 \<le> endTime cached
            \<longrightarrow> newWindowStart opts orbit t < endTime cached \<and>
                forwardSampleStart opts orbit t cached = endTime cached \<and>
                newWindowEnd opts orbit t - forwardSampleStart opts orbit t cached
                  \<le> (t - t0) + getPeriod orbit * WindowSlack \<and>
                newWindowEnd opts orbit t - forwardSampleStart opts orbit t cached
                  < getPeriod orbit * (orbitPeriodsShown opts + 2 * WindowSlack)"
    using incremental_strict [of t t0 orbit opts cached] by blast
  show ?thesis using A k w r n e i by blast
qed

lemma firstWindow_slid:
  "updateWindow defaultOptions orbit100 60 firstWindow =
     \<lparr>samples = [0, 35 / 2, 35, 105 / 2, 70, 85, 100, 115, 130], lastUsed = 0\<rparr>"
  by (simp add: orbit_defs defaultOptions_def firstWindow_def Let_def)

lemma firstWindow_sampled:
  "sample orbit100 (forwardSampleStart defaultOptions orbit100 60 firstWindow)
     (newWindowEnd defaultOptions orbit100 60)
     = forwardSampleStart defaultOptions orbit100 60 firstWindow # [85, 100, 115, 130]"
  by (simp add: orbit_defs defaultOptions_def firstWindow_def)

theorem orbit_window_forward_slide_witness:
  "renderOrbit defaultOptions 7 orbit100 0 emptyRenderer
     = emptyRenderer\<lparr>orbitCache := [(7, firstWindow)]\<rparr> \<and>
   sorted_wrt (<) (samples firstWindow) \<and>
   startTime firstWindow \<le> windowStart defaultOptions orbit100 60 \<and>
   endTime firstWindow < windowEnd defaultOptions orbit100 60 \<and>
   endTime firstWindow = 70 \<and>
   windowEnd defaultOptions orbit100 0 \<le> endTime firstWindow \<and>
   (60::real) - 0 < getPeriod orbit100 * (orbitPeriodsShown defaultOptions + WindowSlack) \<and>
   newWindowStart defaultOptions orbit100 60 = - 10 \<and>
   forwardSampleStart defaultOptions orbit100 60 firstWindow = 70 \<and>
   newWindowEnd defaultOptions orbit100 60 = 130 \<and>
   sample orbit100 70 130 = [70, 85, 100, 115, 130] \<and>
   samples (updateWindow defaultOptions orbit100 60 firstWindow)
     = [0, 35 / 2, 35, 105 / 2, 70, 85, 100, 115, 130] \<and>
   35 \<in> set (samples firstWindow) \<and>
   35 \<in> set (samples (updateWindow defaultOptions orbit100 60 firstWindow)) \<and>
   - 50 \<in> set (samples firstWindow) \<and>
   - 50 \<notin> set (samples (updateWindow defaultOptions orbit100 60 firstWindow)) \<and>
   115 \<notin> set (samples firstWindow) \<and>
   115 \<in> set (samples (updateWindow defaultOptions orbit100 60 firstWindow)) \<and>
   endTime (updateWindow defaultOptions orbit100 60 firstWindow) = 130"
proof -
  have a: "isPeriodic orbit100" "0 \<le> getPeriod orbit100"
    by (simp_all add: orbit100_def)
  have s: "sorted_wrt (<) (samples firstWindow)" "samples firstWindow \<noteq> []"
    by (simp_all add: firstWindow_def)
  have b: "startTime firstWindow \<le> windowStart defaultOptions orbit100 60"
    "endTime firstWindow < windowEnd defaultOptions orbit100 60"
    by (simp_all add: orbit_defs defaultOptions_def firstWindow_def)
  have c: "forwardSampleStart defaultOptions orbit100 60 firstWindow = 70"
    "endTime firstWindow = 70" "newWindowEnd defaultOptions orbit100 60 = 130"
    "newWindowStart defaultOptions orbit100 60 = - 10"
    "windowEnd defaultOptions orbit100 0 \<le> endTime firstWindow"
    "(60::real) - 0 < getPeriod orbit100 * (orbitPeriodsShown defaultOptions + WindowSlack)"
    by (simp_all add: orbit_defs defaultOptions_def firstWindow_def)
  have d: "sample orbit100 70 130 = [70, 85, 100, 115, 130]"
    by (simp add: orbit_defs)
  have n: "sorted_wrt (<) (forwardSampleStart defaultOptions orbit100 60 firstWindow
                             # [85, 100, 115, 130])"
    by (simp add: c)
  have m: "35 \<in> set (samples firstWindow)" "- 50 \<in> set (samples firstWindow)"
    "115 \<notin> set (samples firstWindow)"
    by (simp_all add: firstWindow_def)
  have T: "samples (updateWindow defaultOptions orbit100 60 firstWindow)
             = filter (\<lambda>x. newWindowStart defaultOptions orbit100 60 \<le> x
                          \<and> x \<le> endTime firstWindow * (1 - 1 / 10 ^ 15)) (samples firstWindow)
               @ dropWhile (\<lambda>y. filter (\<lambda>x. newWindowStart defaultOptions orbit100 60 \<le> x
                          \<and> x \<le> endTime firstWindow * (1 - 1 / 10 ^ 15)) (samples firstWindow) \<noteq> []
                        \<and> y \<le> last (filter (\<lambda>x. newWindowStart defaultOptions orbit100 60 \<le> x
                          \<and> x \<le> endTime firstWindow * (1 - 1 / 10 ^ 15)) (samples firstWindow)))
                   (forwardSampleStart defaultOptions orbit100 60 firstWindow # [85, 100, 115, 130])"
    using orbit_window_forward_slide [OF a s b firstWindow_sampled n refl refl, of 35 115 0] by (rule conjunct1)
  have k: "filter (\<lambda>x. newWindowStart defaultOptions orbit100 60 \<le> x
             \<and> x \<le> endTime firstWindow * (1 - 1 / 10 ^ 15)) (samples firstWindow)
           = [0, 35 / 2, 35, 105 / 2]"
    by (simp add: c) (simp add: firstWindow_def)
  have u: "samples (updateWindow defaultOptions orbit100 60 firstWindow)
             = [0, 35 / 2, 35, 105 / 2, 70, 85, 100, 115, 130]"
    unfolding T k by (simp add: c)
  show ?thesis
    using s b c d m by (simp add: default_first u endTime_def) (simp add: firstWindow_def)
qed

text \<open>
  Claim C2 as stated fails in its last part: with half a period shown, a forward step of
  95 (less than the period of 100) moves the new window start minus slack (75) beyond the
  cached window end (70), every cached sample is dropped and the whole new window
  \<open>[75, 165]\<close> is sampled.
\<close>

theorem orbit_window_full_resample_counterexample:
  "renderOrbit halfPeriodOptions 7 orbit100 0 emptyRenderer =
     emptyRenderer\<lparr>orbitCache :=
       [(7, \<lparr>samples = [0, 35 / 2, 35, 105 / 2, 70], lastUsed = 0\<rparr>)]\<rparr> \<and>
   renderOrbit halfPeriodOptions 7 orbit100 95
       (renderOrbit halfPeriodOptions 7 orbit100 0 emptyRenderer) =
     emptyRenderer\<lparr>orbitCache :=
       [(7, \<lparr>samples = [75, 195 / 2, 120, 285 / 2, 165], lastUsed = 0\<rparr>)]\<rparr> \<and>
   (95::real) - 0 < getPeriod orbit100 \<and>
   forwardSampleStart halfPeriodOptions orbit100 95
       \<lparr>samples = [0, 35 / 2, 35, 105 / 2, 70], lastUsed = 0\<rparr>
     = newWindowStart halfPeriodOptions orbit100 95 \<and>
   newWindowStart halfPeriodOptions orbit100 95 = 75 \<and>
   newWindowEnd halfPeriodOptions orbit100 95 = 165"
  by (simp only: half_second half_first)
     (simp add: orbit_defs halfPeriodOptions_def)

text \<open>
  Claim C3, the behaviour of the code where it departs from the claim. The orbit has
  period 100 and a sampler of five equidistant samples, \<open>OrbitWindowEnd\<close> is 0.5 and
  \<open>OrbitPeriodsShown\<close> is 2, the cache is empty, and \<open>renderOrbit\<close> is called twice at time
  0. The display window is \<open>[-150, 50]\<close>. The first call, a cache miss, samples \<open>[-100, 0]\<close>
  and then takes the first branch of the window update only (lines 1697 to 1712), which
  extends the cached window backwards to \<open>-170\<close>; the branch that extends it forwards is
  the \<open>else if\<close> of the same statement (line 1713) and is not reached, so the cached window
  \<open>[-170, 0]\<close> does not cover the display window, although the comment above the update
  (lines 1683 to 1685) says that it makes the cached samples cover it. The second call at
  the same time is a cache hit, takes the second branch and samples \<open>[0, 70]\<close>: the cached
  samples after the second call differ from those after the first.
\<close>

theorem orbit_cache_second_call_resamples:
  "cachedSamples (renderOrbit twoPeriodOptions 7 orbit100 0 emptyRenderer) =
     [(7, [- 170, - (305 / 2), - 135, - (235 / 2), - 100, - 75, - 50, - 25, 0])] \<and>
   windowStart twoPeriodOptions orbit100 0 = - 150 \<and>
   windowEnd twoPeriodOptions orbit100 0 = 50 \<and>
   cachedSamples (renderOrbit twoPeriodOptions 7 orbit100 0
                    (renderOrbit twoPeriodOptions 7 orbit100 0 emptyRenderer)) =
     [(7, [- 170, - (305 / 2), - 135, - (235 / 2), - 100, - 75, - 50, - 25, 0,
           35 / 2, 35, 105 / 2, 70])] \<and>
   cachedSamples (renderOrbit twoPeriodOptions 7 orbit100 0
                    (renderOrbit twoPeriodOptions 7 orbit100 0 emptyRenderer))
     \<noteq> cachedSamples (renderOrbit twoPeriodOptions 7 orbit100 0 emptyRenderer)"
proof -
  have 1: "cachedSamples (renderOrbit twoPeriodOptions 7 orbit100 0 emptyRenderer) =
     [(7, [- 170, - (305 / 2), - 135, - (235 / 2), - 100, - 75, - 50, - 25, 0])]"
    by (simp add: twoPeriods_first cachedSamples_def)
  have 2: "cachedSamples (renderOrbit twoPeriodOptions 7 orbit100 0
                    (renderOrbit twoPeriodOptions 7 orbit100 0 emptyRenderer)) =
     [(7, [- 170, - (305 / 2), - 135, - (235 / 2), - 100, - 75, - 50, - 25, 0,
           35 / 2, 35, 105 / 2, 70])]"
    by (simp only: twoPeriods_second) (simp add: cachedSamples_def)
  have 3: "windowStart twoPeriodOptions orbit100 0 = - 150"
    "windowEnd twoPeriodOptions orbit100 0 = 50"
    by (simp_all add: windowStart_def windowEnd_def twoPeriodOptions_def orbit100_def)
  show ?thesis by (simp only: 1 2 3) simp
qed

text \<open>
  With the default options and the same sampler the first call leaves a cached window that
  covers the display window, and the second call changes nothing.
\<close>

lemma default_second_call_unchanged:
  "windowCovered defaultOptions orbit100 0 firstWindow \<and>
   renderOrbit defaultOptions 7 orbit100 0 (renderOrbit defaultOptions 7 orbit100 0 emptyRenderer)
     = renderOrbit defaultOptions 7 orbit100 0 emptyRenderer"
proof -
  have a: "shaderAvailable emptyRenderer" by (simp add: emptyRenderer_def)
  have b: "map_of (orbitCache (renderOrbit defaultOptions 7 orbit100 0 emptyRenderer)) 7
             = Some firstWindow"
    by (simp add: default_first firstWindow_def)
  have c: "windowCovered defaultOptions orbit100 0 firstWindow"
    by (simp add: windowCovered_def orbit_defs defaultOptions_def firstWindow_def)
  then have c': "isPeriodic orbit100 \<longrightarrow> windowCovered defaultOptions orbit100 0 firstWindow"
    by simp
  show ?thesis
    using renderOrbit_covered_hit [OF refl a b c', of 1] c by simp
qed

end
